theory Spec2Isabelle
  imports Complex_Main
begin

section \<open>Tensors\<close>

text \<open>
  The notebooks drive a numerical framework; every value they handle is a tensor: a shape
  and the elements in row-major (contiguous) order. Elements are modelled as real
  numbers here, so the statements about \<open>tensor\<close> are about exact arithmetic. The
  infinities and NaN of the 32-bit floats the framework computes with enter in section
  ``The framework's numbers and modules'', which embeds the forward pass and the
  evaluation loop a second time, over floating-point values, for the properties that
  depend on them. The rounding of finite results is outside both models.
\<close>

record tensor =
  shape :: "nat list"
  data :: "real list"

definition wf_tensor :: "tensor \<Rightarrow> bool" where
  "wf_tensor t \<longleftrightarrow> length (data t) = prod_list (shape t)"

text \<open>The errors the framework and the interpreter raise; each ends the run.\<close>

datatype error = RuntimeError | IndexError | ZeroDivisionError | FileNotFoundError | ValueError

definition bind_err :: "error + 'a \<Rightarrow> ('a \<Rightarrow> error + 'b) \<Rightarrow> error + 'b" where
  "bind_err r f = (case r of Inl e \<Rightarrow> Inl e | Inr v \<Rightarrow> f v)"

text \<open>\<open>rows n k xs\<close> reads \<open>n\<close> consecutive rows of width \<open>k\<close> from contiguous storage.\<close>

fun rows :: "nat \<Rightarrow> nat \<Rightarrow> 'a list \<Rightarrow> 'a list list" where
  "rows 0 k xs = []"
| "rows (Suc n) k xs = take k xs # rows n k (drop k xs)"

text \<open>Entry \<open>(r, c)\<close> of a two-dimensional tensor.\<close>

definition at2 :: "tensor \<Rightarrow> nat \<Rightarrow> nat \<Rightarrow> real" where
  "at2 t r c = data t ! (r * (shape t ! 1) + c)"

text \<open>The transpose of a two-dimensional tensor, as the specification's \<open>weight^T\<close>.\<close>

definition transposeT :: "tensor \<Rightarrow> tensor" where
  "transposeT t =
     (case shape t of
        [m, n] \<Rightarrow> \<lparr>shape = [n, m],
                   data = concat (map (\<lambda>i. map (\<lambda>j. data t ! (j * n + i)) [0..<m]) [0..<n])\<rparr>
      | _ \<Rightarrow> t)"

section \<open>The framework's layers\<close>

text \<open>
  Modelled from the spec: \<open>nn.Flatten\<close>, \<open>nn.Linear\<close> and \<open>nn.ReLU\<close> are layers of the
  framework; the repository only instantiates them. Their behaviour is taken from the
  notebook that introduces them and from the specification (section 4.1).

  \<open>nn.Flatten()\<close> (\<open>start_dim=1, end_dim=-1\<close>) keeps dimension 0 and merges all the others;
  the storage is untouched. A tensor with fewer than two dimensions has no dimension 1.
\<close>

definition nn_Flatten :: "tensor \<Rightarrow> error + tensor" where
  "nn_Flatten x =
     (case shape x of
        d0 # d1 # ds \<Rightarrow> Inr (x\<lparr>shape := [d0, prod_list (d1 # ds)]\<rparr>)
      | _ \<Rightarrow> Inl IndexError)"

text \<open>
  \<open>nn.ReLU\<close>: the notebook gives \<open>f(x) = 0 if x < 0, x if x \<ge> 0\<close>, applied to every
  element.
\<close>

definition relu :: "real \<Rightarrow> real" where
  "relu x = (if x < 0 then 0 else x)"

definition nn_ReLU :: "tensor \<Rightarrow> tensor" where
  "nn_ReLU x = x\<lparr>data := map relu (data x)\<rparr>"

text \<open>
  \<open>nn.Linear\<close> holds a weight of shape \<open>[out_features, in_features]\<close> and a bias of shape
  \<open>[out_features]\<close>. Applied to an input whose last dimension is \<open>in_features\<close>, every
  input row is multiplied with every weight row and the bias is added; any other input
  raises the framework's shape error.
\<close>

definition dot :: "real list \<Rightarrow> real list \<Rightarrow> real" where
  "dot u v = sum_list (map2 (*) u v)"

definition nn_Linear :: "tensor \<Rightarrow> tensor \<Rightarrow> tensor \<Rightarrow> error + tensor" where
  "nn_Linear W b x =
     (case shape W of
        [out_features, in_features] \<Rightarrow>
          if shape x \<noteq> [] \<and> last (shape x) = in_features then
            Inr \<lparr>shape = butlast (shape x) @ [out_features],
                 data = concat (map (\<lambda>r. map2 (\<lambda>w bj. dot r w + bj)
                                            (rows out_features in_features (data W)) (data b))
                                    (rows (prod_list (butlast (shape x))) in_features (data x)))\<rparr>
          else Inl RuntimeError
      | _ \<Rightarrow> Inl RuntimeError)"

section \<open>The model\<close>

text \<open>
  \<open>NeuralNetwork\<close> owns a \<open>flatten\<close> layer, which has no state, and \<open>linear_relu_stack\<close>,
  an \<open>nn.Sequential\<close> of six stages. \<open>training\<close> is the mode flag every module carries;
  \<open>model.eval()\<close> clears it.
\<close>

datatype stage = Linear (weight: tensor) (bias: tensor) | ReLU

record neural_network =
  linear_relu_stack :: "stage list"
  training :: bool

text \<open>
  \<open>nn.Linear(in_features, out_features)\<close> draws its initial weight and bias at random;
  the draw is the argument \<open>w0\<close>, \<open>b0\<close> here.
\<close>

definition Linear_init :: "nat \<Rightarrow> nat \<Rightarrow> (nat \<Rightarrow> real) \<Rightarrow> (nat \<Rightarrow> real) \<Rightarrow> stage" where
  "Linear_init in_features out_features w0 b0 =
     Linear \<lparr>shape = [out_features, in_features], data = map w0 [0..<out_features * in_features]\<rparr>
            \<lparr>shape = [out_features], data = map b0 [0..<out_features]\<rparr>"

definition NeuralNetwork :: "(nat \<Rightarrow> nat \<Rightarrow> real) \<Rightarrow> neural_network" where
  "NeuralNetwork rnd =
     \<lparr>linear_relu_stack =
        [Linear_init (28 * 28) 512 (rnd 0) (rnd 1),
         ReLU,
         Linear_init 512 512 (rnd 2) (rnd 3),
         ReLU,
         Linear_init 512 10 (rnd 4) (rnd 5),
         ReLU],
      training = True\<rparr>"

fun apply_stage :: "stage \<Rightarrow> tensor \<Rightarrow> error + tensor" where
  "apply_stage (Linear W b) x = nn_Linear W b x"
| "apply_stage ReLU x = Inr (nn_ReLU x)"

text \<open>\<open>nn.Sequential\<close> passes the data through its stages in their order.\<close>

fun Sequential :: "stage list \<Rightarrow> tensor \<Rightarrow> error + tensor" where
  "Sequential [] x = Inr x"
| "Sequential (s # ss) x = bind_err (apply_stage s x) (Sequential ss)"

definition forward :: "neural_network \<Rightarrow> tensor \<Rightarrow> error + tensor" where
  "forward self x = bind_err (nn_Flatten x) (Sequential (linear_relu_stack self))"

definition eval :: "neural_network \<Rightarrow> neural_network" where
  "eval self = self\<lparr>training := False\<rparr>"

text \<open>
  The shapes \<open>NeuralNetwork\<close> gives its parameters. A model is well formed when its stack
  has this structure and every parameter holds as many elements as its shape says;
  construction establishes it, and training and loading keep it.
\<close>

fun stage_shape :: "stage \<Rightarrow> (nat list \<times> nat list) option" where
  "stage_shape (Linear W b) = Some (shape W, shape b)"
| "stage_shape ReLU = None"

fun wf_stage :: "stage \<Rightarrow> bool" where
  "wf_stage (Linear W b) \<longleftrightarrow> wf_tensor W \<and> wf_tensor b"
| "wf_stage ReLU \<longleftrightarrow> True"

definition NeuralNetwork_shapes :: "(nat list \<times> nat list) option list" where
  "NeuralNetwork_shapes =
     [Some ([512, 28 * 28], [512]), None, Some ([512, 512], [512]), None,
      Some ([10, 512], [10]), None]"

definition wf_model :: "neural_network \<Rightarrow> bool" where
  "wf_model self \<longleftrightarrow>
     map stage_shape (linear_relu_stack self) = NeuralNetwork_shapes \<and>
     list_all wf_stage (linear_relu_stack self)"

text \<open>The kind of a stage, as the printed structure of the model names it.\<close>

fun stage_kind :: "stage \<Rightarrow> string" where
  "stage_kind (Linear W b) = ''Linear''"
| "stage_kind ReLU = ''ReLU''"

section \<open>Persistence\<close>

text \<open>
  The parameters of a model are persisted as its \<open>state_dict\<close>: an ordered mapping from
  the parameter's name to its tensor. A child of \<open>nn.Sequential\<close> is named by its index, so
  the names are \<open>linear_relu_stack.0.weight\<close>, \<open>linear_relu_stack.0.bias\<close>,
  \<open>linear_relu_stack.2.weight\<close> and so on, as \<open>named_parameters()\<close> prints them; a ReLU
  stage contributes nothing.
\<close>

fun str_nat :: "nat \<Rightarrow> string" where
  "str_nat n =
     (if n < 10 then [''0123456789'' ! n] else str_nat (n div 10) @ [''0123456789'' ! (n mod 10)])"

declare str_nat.simps [simp del]

definition param_prefix :: "nat \<Rightarrow> string" where
  "param_prefix i = ''linear_relu_stack.'' @ str_nat i @ ''.''"

fun stage_parameters :: "string \<Rightarrow> stage \<Rightarrow> (string \<times> tensor) list" where
  "stage_parameters prefix (Linear W b) = [(prefix @ ''weight'', W), (prefix @ ''bias'', b)]"
| "stage_parameters prefix ReLU = []"

fun named_parameters :: "nat \<Rightarrow> stage list \<Rightarrow> (string \<times> tensor) list" where
  "named_parameters i [] = []"
| "named_parameters i (s # ss) = stage_parameters (param_prefix i) s @ named_parameters (Suc i) ss"

definition state_dict :: "neural_network \<Rightarrow> (string \<times> tensor) list" where
  "state_dict self = named_parameters 0 (linear_relu_stack self)"

text \<open>
  Modelled from the spec: \<open>torch.save\<close> and \<open>torch.load\<close> belong to the framework. The
  parameter file is an opaque snapshot of the named mapping (sections 4.4 and 6): a file
  holds the mapping that was written to it, and reading a path nobody wrote fails.
\<close>

type_synonym files = "string \<rightharpoonup> (string \<times> tensor) list"

definition torch_save :: "(string \<times> tensor) list \<Rightarrow> string \<Rightarrow> files \<Rightarrow> files" where
  "torch_save obj path fs = fs(path \<mapsto> obj)"

definition torch_load :: "string \<Rightarrow> files \<Rightarrow> error + (string \<times> tensor) list" where
  "torch_load path fs = (case fs path of None \<Rightarrow> Inl FileNotFoundError | Some obj \<Rightarrow> Inr obj)"

text \<open>
  Modelled from the spec: \<open>load_state_dict\<close> is the framework's. It overwrites every
  parameter of the module with the tensor stored under the parameter's name; a name of
  the module that the mapping lacks, a name of the mapping that the module lacks, and a
  tensor of another shape than the parameter it replaces are errors (section 4.4: a
  mismatch fails with a shape or key error at load time).
\<close>

fun load_stage :: "(string \<rightharpoonup> tensor) \<Rightarrow> string \<Rightarrow> stage \<Rightarrow> error + stage" where
  "load_stage sd prefix (Linear W b) =
     (case (sd (prefix @ ''weight''), sd (prefix @ ''bias'')) of
        (Some W', Some b') \<Rightarrow>
          if shape W' = shape W \<and> shape b' = shape b then Inr (Linear W' b') else Inl RuntimeError
      | _ \<Rightarrow> Inl RuntimeError)"
| "load_stage sd prefix ReLU = Inr ReLU"

fun load_stages :: "(string \<rightharpoonup> tensor) \<Rightarrow> nat \<Rightarrow> stage list \<Rightarrow> error + stage list" where
  "load_stages sd i [] = Inr []"
| "load_stages sd i (s # ss) =
     bind_err (load_stage sd (param_prefix i) s)
       (\<lambda>s'. bind_err (load_stages sd (Suc i) ss) (\<lambda>ss'. Inr (s' # ss')))"

definition load_state_dict ::
  "neural_network \<Rightarrow> (string \<times> tensor) list \<Rightarrow> error + neural_network" where
  "load_state_dict self sd =
     (if list_all (\<lambda>k. k \<in> set (map fst (state_dict self))) (map fst sd) then
        bind_err (load_stages (map_of sd) 0 (linear_relu_stack self))
          (\<lambda>ss. Inr (self\<lparr>linear_relu_stack := ss\<rparr>))
      else Inl RuntimeError)"

text \<open>
  The two ends of the round trip, as the notebooks run them: the training notebook ends
  with \<open>torch.save(model.state_dict(), "data/model.pth")\<close>; the inference notebook starts
  with \<open>model = NeuralNetwork()\<close>, \<open>model.load_state_dict(torch.load('data/model.pth'))\<close>,
  \<open>model.eval()\<close>.
\<close>

definition save_model :: "neural_network \<Rightarrow> files \<Rightarrow> files" where
  "save_model model fs = torch_save (state_dict model) ''data/model.pth'' fs"

definition load_model :: "(nat \<Rightarrow> nat \<Rightarrow> real) \<Rightarrow> files \<Rightarrow> error + neural_network" where
  "load_model rnd fs =
     bind_err (torch_load ''data/model.pth'' fs)
       (\<lambda>sd. bind_err (load_state_dict (NeuralNetwork rnd) sd) (\<lambda>model. Inr (eval model)))"

section \<open>Datasets and batches\<close>

text \<open>
  A sample is an image tensor with its class label; a dataset is the list of its
  samples. \<open>DataLoader(data, batch_size=64)\<close> is given no \<open>shuffle\<close>, so it yields the
  samples in dataset order, \<open>batch_size\<close> at a time, the last batch holding what is left.
  The framework refuses \<open>batch_size = 0\<close> when the loader is built; \<open>chunks\<close> yields nothing
  there.
\<close>

record dataloader =
  dataset :: "(tensor \<times> nat) list"
  batch_size :: nat

function chunks :: "nat \<Rightarrow> 'a list \<Rightarrow> 'a list list" where
  "chunks n xs = (if n = 0 \<or> xs = [] then [] else take n xs # chunks n (drop n xs))"
  by pat_completeness auto
termination
  by (relation "measure (\<lambda>(n, xs). length xs)") auto

declare chunks.simps [simp del]

text \<open>
  Modelled from the spec: the loader's collation is the framework's. The images of a
  batch are stacked along a new first dimension and the labels are listed in the same
  order; images of different shapes cannot be stacked.
\<close>

definition collate :: "(tensor \<times> nat) list \<Rightarrow> error + (tensor \<times> nat list)" where
  "collate b =
     (case b of
        [] \<Rightarrow> Inl IndexError
      | (x0, _) # _ \<Rightarrow>
          if list_all (\<lambda>(x, _). shape x = shape x0) b then
            Inr (\<lparr>shape = length b # shape x0, data = concat (map (\<lambda>(x, _). data x) b)\<rparr>,
                 map snd b)
          else Inl RuntimeError)"

section \<open>Loss and prediction\<close>

text \<open>
  Modelled from the spec: \<open>nn.CrossEntropyLoss\<close> is the framework's; the notebook
  describes it as \<open>nn.LogSoftmax\<close> followed by \<open>nn.NLLLoss\<close>. With the default reduction
  the result is the mean over the batch of \<open>- log_softmax(pred[r])[y[r]]\<close>. A label that
  is not a class index and a label list of another length than the batch are errors. For
  an empty batch the framework's mean is the float NaN, which no real number stands for;
  the model stops there with \<open>ValueError\<close>. No loader yields an empty batch.
\<close>

definition log_softmax :: "real list \<Rightarrow> real list" where
  "log_softmax xs = map (\<lambda>x. x - ln (sum_list (map exp xs))) xs"

definition nll_loss :: "real list list \<Rightarrow> nat list \<Rightarrow> error + real" where
  "nll_loss logp y =
     (if length logp \<noteq> length y \<or> y = [] then Inl ValueError
      else if list_all (\<lambda>(lp, t). t < length lp) (zip logp y) then
        Inr (sum_list (map (\<lambda>(lp, t). - (lp ! t)) (zip logp y)) / real (length y))
      else Inl IndexError)"

definition CrossEntropyLoss :: "tensor \<Rightarrow> nat list \<Rightarrow> error + real" where
  "CrossEntropyLoss pred y =
     (case shape pred of
        [B, C] \<Rightarrow> nll_loss (map log_softmax (rows B C (data pred))) y
      | _ \<Rightarrow> Inl RuntimeError)"

text \<open>
  Modelled from the spec: \<open>pred.argmax(1)\<close> gives, for every row of the scores, the index
  of its maximum (the first one when several entries are maximal).
\<close>

fun argmax :: "real list \<Rightarrow> nat" where
  "argmax [] = 0"
| "argmax [x] = 0"
| "argmax (x # y # ys) = (let k = argmax (y # ys) in if x < (y # ys) ! k then Suc k else 0)"

definition argmax1 :: "tensor \<Rightarrow> error + nat list" where
  "argmax1 pred =
     (case shape pred of
        [B, C] \<Rightarrow> if C = 0 then Inl IndexError else Inr (map argmax (rows B C (data pred)))
      | _ \<Rightarrow> Inl IndexError)"

section \<open>Program state\<close>

text \<open>
  What the loops read and write: the model, whose parameters the optimizer updates in
  place; the \<open>.grad\<close> of the parameters, one entry per stage (\<open>None\<close> for a stage without
  parameters and before the first backward pass); the framework's gradient mode, which
  \<open>torch.no_grad()\<close> switches off; the number of forward passes recorded for
  differentiation so far; and the printed lines.
\<close>

datatype printed =
  Epoch nat
| TrainLoss real nat nat
| TestError real real
| Done

type_synonym gradient = "(tensor \<times> tensor) option list"

record state =
  model :: neural_network
  grad :: gradient
  grad_enabled :: bool
  graphs :: nat
  stdout :: "printed list"

text \<open>
  \<open>model(X)\<close> runs \<open>forward\<close>; the framework records the pass for differentiation when
  gradient tracking is on.
\<close>

definition call_model :: "tensor \<Rightarrow> state \<Rightarrow> error + (tensor \<times> state)" where
  "call_model X s =
     bind_err (forward (model s) X)
       (\<lambda>pred. Inr (pred, if grad_enabled s then s\<lparr>graphs := graphs s + 1\<rparr> else s))"

text \<open>\<open>with torch.no_grad():\<close> switches tracking off for its body and restores it after.\<close>

definition no_grad :: "(state \<Rightarrow> error + ('a \<times> state)) \<Rightarrow> state \<Rightarrow> error + ('a \<times> state)" where
  "no_grad body s =
     bind_err (body (s\<lparr>grad_enabled := False\<rparr>))
       (\<lambda>(r, s'). Inr (r, s'\<lparr>grad_enabled := grad_enabled s\<rparr>))"

section \<open>The evaluation loop\<close>

text \<open>
  \<open>test_loop(dataloader, model, loss_fn)\<close>. The model is the one of the state. The last
  line prints \<open>100*correct\<close> and \<open>test_loss\<close>; the output records the two variables
  themselves.
\<close>

definition count_equal :: "nat list \<Rightarrow> nat list \<Rightarrow> nat" where
  "count_equal am y = length (filter (\<lambda>(p, t). p = t) (zip am y))"

fun test_batches ::
  "(tensor \<Rightarrow> nat list \<Rightarrow> error + real) \<Rightarrow> (tensor \<times> nat) list list \<Rightarrow> real \<times> real \<Rightarrow> state
     \<Rightarrow> error + ((real \<times> real) \<times> state)" where
  "test_batches loss_fn [] (test_loss, correct) s = Inr ((test_loss, correct), s)"
| "test_batches loss_fn (b # bs) (test_loss, correct) s =
     bind_err (collate b) (\<lambda>(X, y).
     bind_err (call_model X s) (\<lambda>(pred, s1).
     bind_err (loss_fn pred y) (\<lambda>l.
     bind_err (argmax1 pred) (\<lambda>am.
       test_batches loss_fn bs
         (test_loss + l, correct + real (count_equal am y)) s1))))"

definition test_loop ::
  "dataloader \<Rightarrow> (tensor \<Rightarrow> nat list \<Rightarrow> error + real) \<Rightarrow> state \<Rightarrow> error + state" where
  "test_loop dataloader loss_fn s =
     (let size = length (dataset dataloader) in
      bind_err
        (no_grad (test_batches loss_fn (chunks (batch_size dataloader) (dataset dataloader)) (0, 0)) s)
        (\<lambda>((test_loss, correct), s1).
           if size = 0 then Inl ZeroDivisionError
           else Inr (s1\<lparr>stdout := stdout s1 @ [TestError (correct / real size) (test_loss / real size)]\<rparr>)))"

text \<open>
  What one batch contributes to the evaluation, as a function of the model alone: the
  loss of the batch and the number of its samples whose label is the index of the
  maximal score. \<open>all_ok\<close> collects the results of the batches, or the first error.
\<close>

definition eval_batch ::
  "(tensor \<Rightarrow> nat list \<Rightarrow> error + real) \<Rightarrow> neural_network \<Rightarrow> (tensor \<times> nat) list
     \<Rightarrow> error + (real \<times> nat)" where
  "eval_batch loss_fn m b =
     bind_err (collate b) (\<lambda>(X, y).
     bind_err (forward m X) (\<lambda>pred.
     bind_err (loss_fn pred y) (\<lambda>l.
     bind_err (argmax1 pred) (\<lambda>am. Inr (l, count_equal am y)))))"

fun all_ok :: "(error + 'a) list \<Rightarrow> error + 'a list" where
  "all_ok [] = Inr []"
| "all_ok (r # rs) = bind_err r (\<lambda>v. bind_err (all_ok rs) (\<lambda>vs. Inr (v # vs)))"

section \<open>The training loop\<close>

text \<open>
  \<open>pred = model(X)\<close> and \<open>loss = loss_fn(pred, y)\<close> give the loss together with the record
  of how it was computed from the parameters; \<open>loss.backward()\<close> differentiates that
  record. \<open>recorded_loss\<close> is the record: the loss of the same images and labels as a
  function of the parameters of the model. At the parameters the model has, it is the
  loss that was computed.
\<close>

definition recorded_loss ::
  "(tensor \<Rightarrow> nat list \<Rightarrow> error + real) \<Rightarrow> neural_network \<Rightarrow> tensor \<Rightarrow> nat list
     \<Rightarrow> stage list \<Rightarrow> error + real" where
  "recorded_loss loss_fn self X y ss =
     bind_err (forward (self\<lparr>linear_relu_stack := ss\<rparr>) X) (\<lambda>pred. loss_fn pred y)"

text \<open>
  Modelled from the spec: the optimizer and the differentiation are the framework's.
  \<open>loss.backward()\<close> adds to the \<open>.grad\<close> of every parameter the gradient of the loss in
  that parameter. The reverse-mode differentiation that computes it is the argument
  \<open>autograd\<close>: from the recorded computation of the loss and the current parameters to
  the gradient, stage by stage. There is a record only when tracking was on.
  \<open>optimizer.zero_grad()\<close> zeroes every \<open>.grad\<close>; \<open>optimizer.step()\<close> of \<open>torch.optim.SGD\<close>
  without momentum replaces every parameter \<open>p\<close> that has a gradient by
  \<open>p - lr * p.grad\<close>.
\<close>

definition zeros_like :: "tensor \<Rightarrow> tensor" where
  "zeros_like t = t\<lparr>data := map (\<lambda>_. 0) (data t)\<rparr>"

definition tensor_add :: "tensor \<Rightarrow> tensor \<Rightarrow> tensor" where
  "tensor_add a g = a\<lparr>data := map2 (+) (data a) (data g)\<rparr>"

definition sgd_tensor :: "real \<Rightarrow> tensor \<Rightarrow> tensor \<Rightarrow> tensor" where
  "sgd_tensor lr p g = p\<lparr>data := map2 (\<lambda>pv gv. pv - lr * gv) (data p) (data g)\<rparr>"

definition zero_grad :: "state \<Rightarrow> state" where
  "zero_grad s = s\<lparr>grad := map (map_option (\<lambda>(gW, gb). (zeros_like gW, zeros_like gb))) (grad s)\<rparr>"

fun accumulate :: "(tensor \<times> tensor) option \<Rightarrow> (tensor \<times> tensor) option \<Rightarrow> (tensor \<times> tensor) option" where
  "accumulate None g = g"
| "accumulate (Some a) None = Some a"
| "accumulate (Some (aW, ab)) (Some (gW, gb)) = Some (tensor_add aW gW, tensor_add ab gb)"

definition backward ::
  "((stage list \<Rightarrow> error + real) \<Rightarrow> stage list \<Rightarrow> gradient) \<Rightarrow> (stage list \<Rightarrow> error + real)
     \<Rightarrow> state \<Rightarrow> error + state" where
  "backward autograd loss s =
     (if grad_enabled s then
        Inr (s\<lparr>grad := map2 accumulate (grad s) (autograd loss (linear_relu_stack (model s)))\<rparr>)
      else Inl RuntimeError)"

fun sgd_stage :: "real \<Rightarrow> stage \<Rightarrow> (tensor \<times> tensor) option \<Rightarrow> stage" where
  "sgd_stage lr (Linear W b) (Some (gW, gb)) = Linear (sgd_tensor lr W gW) (sgd_tensor lr b gb)"
| "sgd_stage lr st _ = st"

record SGD =
  lr :: real

definition step :: "SGD \<Rightarrow> state \<Rightarrow> state" where
  "step optimizer s =
     s\<lparr>model := (model s)\<lparr>linear_relu_stack :=
          map2 (sgd_stage (lr optimizer)) (linear_relu_stack (model s)) (grad s)\<rparr>\<rparr>"

text \<open>
  \<open>train_loop(dataloader, model, loss_fn, optimizer)\<close>: \<open>batch\<close> counts the batches from 0,
  and every 100th batch prints the loss, \<open>batch * len(X)\<close> and the size of the dataset.
  The loss that \<open>backward\<close> differentiates is the one just computed from \<open>pred\<close> and \<open>y\<close>.
\<close>

fun train_batches ::
  "((stage list \<Rightarrow> error + real) \<Rightarrow> stage list \<Rightarrow> gradient) \<Rightarrow> (tensor \<Rightarrow> nat list \<Rightarrow> error + real)
     \<Rightarrow> SGD \<Rightarrow> nat \<Rightarrow> nat \<Rightarrow> (tensor \<times> nat) list list \<Rightarrow> state \<Rightarrow> error + state" where
  "train_batches autograd loss_fn optimizer size' batch [] s = Inr s"
| "train_batches autograd loss_fn optimizer size' batch (b # bs) s =
     bind_err (collate b) (\<lambda>(X, y).
     bind_err (call_model X s) (\<lambda>(pred, s1).
     bind_err (loss_fn pred y) (\<lambda>loss.
     bind_err (backward autograd (recorded_loss loss_fn (model s) X y) (zero_grad s1)) (\<lambda>s2.
       train_batches autograd loss_fn optimizer size' (Suc batch) bs
         (let s3 = step optimizer s2 in
          if batch mod 100 = 0
          then s3\<lparr>stdout := stdout s3 @ [TrainLoss loss (batch * length b) size']\<rparr>
          else s3)))))"

definition train_loop ::
  "((stage list \<Rightarrow> error + real) \<Rightarrow> stage list \<Rightarrow> gradient) \<Rightarrow> dataloader
     \<Rightarrow> (tensor \<Rightarrow> nat list \<Rightarrow> error + real) \<Rightarrow> SGD \<Rightarrow> state \<Rightarrow> error + state" where
  "train_loop autograd dataloader loss_fn optimizer s =
     train_batches autograd loss_fn optimizer (length (dataset dataloader)) 0
       (chunks (batch_size dataloader) (dataset dataloader)) s"

section \<open>The training run\<close>

text \<open>
  The hyperparameters of the notebook; \<open>epochs\<close> is first set to 5 and set again to 10
  before the loop.
\<close>

definition learning_rate :: real where
  "learning_rate = 1 / 1000"

definition epochs :: nat where
  "epochs = 10"

text \<open>
  \<open>for t in range(epochs):\<close> print the banner, train, evaluate. \<open>epoch_loop n t\<close> runs
  the \<open>n\<close> iterations that start at \<open>t\<close>.
\<close>

fun epoch_loop ::
  "((stage list \<Rightarrow> error + real) \<Rightarrow> stage list \<Rightarrow> gradient) \<Rightarrow> dataloader \<Rightarrow> dataloader
     \<Rightarrow> (tensor \<Rightarrow> nat list \<Rightarrow> error + real) \<Rightarrow> SGD \<Rightarrow> nat \<Rightarrow> nat \<Rightarrow> state \<Rightarrow> error + state" where
  "epoch_loop autograd train_dataloader test_dataloader loss_fn optimizer 0 t s = Inr s"
| "epoch_loop autograd train_dataloader test_dataloader loss_fn optimizer (Suc n) t s =
     bind_err (train_loop autograd train_dataloader loss_fn optimizer (s\<lparr>stdout := stdout s @ [Epoch (t + 1)]\<rparr>))
       (\<lambda>s1. bind_err (test_loop test_dataloader loss_fn s1)
         (epoch_loop autograd train_dataloader test_dataloader loss_fn optimizer n (Suc t)))"

definition init_state :: "(nat \<Rightarrow> nat \<Rightarrow> real) \<Rightarrow> state" where
  "init_state rnd =
     \<lparr>model = NeuralNetwork rnd, grad = [None, None, None, None, None, None],
      grad_enabled = True, graphs = 0, stdout = []\<rparr>"

definition training_run ::
  "((stage list \<Rightarrow> error + real) \<Rightarrow> stage list \<Rightarrow> gradient) \<Rightarrow> (tensor \<times> nat) list
     \<Rightarrow> (tensor \<times> nat) list \<Rightarrow> state \<Rightarrow> error + state" where
  "training_run autograd training_data test_data s =
     bind_err
       (epoch_loop autograd
          \<lparr>dataset = training_data, batch_size = 64\<rparr> \<lparr>dataset = test_data, batch_size = 64\<rparr>
          CrossEntropyLoss \<lparr>lr = learning_rate\<rparr> epochs 0 s)
       (\<lambda>s1. Inr (s1\<lparr>stdout := stdout s1 @ [Done]\<rparr>))"

text \<open>
  The samples of FashionMNIST after \<open>ToTensor()\<close>: one channel of 28 by 28 values and a
  label among the 10 classes.
\<close>

definition wf_dataset :: "(tensor \<times> nat) list \<Rightarrow> bool" where
  "wf_dataset ds \<longleftrightarrow> list_all (\<lambda>(x, t). shape x = [1, 28, 28] \<and> wf_tensor x \<and> t < 10) ds"

text \<open>
  What the framework guarantees of a gradient: it has one entry per stage, none for a
  stage without parameters, and for a linear stage two tensors with the shapes and sizes
  of the weight and the bias.
\<close>

fun grad_like_stage :: "(tensor \<times> tensor) option \<Rightarrow> stage \<Rightarrow> bool" where
  "grad_like_stage (Some (gW, gb)) (Linear W b) \<longleftrightarrow>
     shape gW = shape W \<and> shape gb = shape b \<and>
     length (data gW) = length (data W) \<and> length (data gb) = length (data b)"
| "grad_like_stage None ReLU \<longleftrightarrow> True"
| "grad_like_stage _ _ \<longleftrightarrow> False"

definition grad_like :: "gradient \<Rightarrow> stage list \<Rightarrow> bool" where
  "grad_like g ss \<longleftrightarrow> list_all2 grad_like_stage g ss"

text \<open>
  The gradient of a recorded loss. \<open>set_weight ss k i v\<close> and \<open>set_bias ss k i v\<close> are the
  parameters \<open>ss\<close> with element \<open>i\<close> of the weight, or of the bias, of stage \<open>k\<close> replaced by
  \<open>v\<close>; \<open>loss_at\<close> reads the value of the loss. A gradient of the loss at \<open>ss\<close> is shaped
  like the parameters, and wherever the loss has a derivative in one element of a
  parameter, the other elements fixed, the gradient holds that derivative at the place
  of the element. (Where no derivative exists, as at a kink of a ReLU, nothing is asked.)
\<close>

definition loss_at :: "(stage list \<Rightarrow> error + real) \<Rightarrow> stage list \<Rightarrow> real" where
  "loss_at loss ss = (case loss ss of Inr l \<Rightarrow> l | Inl e \<Rightarrow> 0)"

definition set_weight :: "stage list \<Rightarrow> nat \<Rightarrow> nat \<Rightarrow> real \<Rightarrow> stage list" where
  "set_weight ss k i v =
     (case ss ! k of
        Linear W b \<Rightarrow> ss[k := Linear (W\<lparr>data := (data W)[i := v]\<rparr>) b]
      | ReLU \<Rightarrow> ss)"

definition set_bias :: "stage list \<Rightarrow> nat \<Rightarrow> nat \<Rightarrow> real \<Rightarrow> stage list" where
  "set_bias ss k i v =
     (case ss ! k of
        Linear W b \<Rightarrow> ss[k := Linear W (b\<lparr>data := (data b)[i := v]\<rparr>)]
      | ReLU \<Rightarrow> ss)"

definition is_gradient :: "(stage list \<Rightarrow> error + real) \<Rightarrow> stage list \<Rightarrow> gradient \<Rightarrow> bool" where
  "is_gradient loss ss g \<longleftrightarrow>
     grad_like g ss \<and>
     (\<forall>k W b gW gb. k < length ss \<and> ss ! k = Linear W b \<and> g ! k = Some (gW, gb) \<longrightarrow>
        (\<forall>i D. i < length (data W) \<and>
            ((\<lambda>v. loss_at loss (set_weight ss k i v)) has_real_derivative D) (at (data W ! i))
            \<longrightarrow> data gW ! i = D) \<and>
        (\<forall>i D. i < length (data b) \<and>
            ((\<lambda>v. loss_at loss (set_bias ss k i v)) has_real_derivative D) (at (data b ! i))
            \<longrightarrow> data gb ! i = D))"

text \<open>
  The gradient as mathematics defines it, element by element: the derivative of the loss
  in the element where there is one, and 0 where there is none.
\<close>

definition partial :: "(real \<Rightarrow> real) \<Rightarrow> real \<Rightarrow> real" where
  "partial f x =
     (if \<exists>D. (f has_real_derivative D) (at x) then THE D. (f has_real_derivative D) (at x) else 0)"

fun gradient_stages ::
  "(stage list \<Rightarrow> error + real) \<Rightarrow> stage list \<Rightarrow> nat \<Rightarrow> stage list \<Rightarrow> gradient" where
  "gradient_stages loss ss k [] = []"
| "gradient_stages loss ss k (ReLU # rest) = None # gradient_stages loss ss (Suc k) rest"
| "gradient_stages loss ss k (Linear W b # rest) =
     Some (W\<lparr>data := map (\<lambda>i. partial (\<lambda>v. loss_at loss (set_weight ss k i v)) (data W ! i))
                         [0..<length (data W)]\<rparr>,
           b\<lparr>data := map (\<lambda>i. partial (\<lambda>v. loss_at loss (set_bias ss k i v)) (data b ! i))
                         [0..<length (data b)]\<rparr>)
       # gradient_stages loss ss (Suc k) rest"

definition gradient :: "(stage list \<Rightarrow> error + real) \<Rightarrow> stage list \<Rightarrow> gradient" where
  "gradient loss ss = gradient_stages loss ss 0 ss"

text \<open>
  The \<open>.grad\<close> of the parameters between two batches: an entry is still \<open>None\<close> or is
  shaped like its parameter.
\<close>

definition grad_ok :: "state \<Rightarrow> bool" where
  "grad_ok s \<longleftrightarrow>
     list_all2 (\<lambda>g st. g = None \<or> grad_like_stage g st) (grad s) (linear_relu_stack (model s))"

text \<open>
  The update one batch makes to the model, as a function of the model: the batch is
  collated, the loss of the batch is differentiated at the current parameters, and
  every parameter moves against its gradient.
\<close>

definition sgd_update :: "real \<Rightarrow> stage list \<Rightarrow> gradient \<Rightarrow> stage list" where
  "sgd_update rate ss g = map2 (sgd_stage rate) ss g"

definition train_step ::
  "((stage list \<Rightarrow> error + real) \<Rightarrow> stage list \<Rightarrow> gradient) \<Rightarrow> (tensor \<Rightarrow> nat list \<Rightarrow> error + real)
     \<Rightarrow> real \<Rightarrow> neural_network \<Rightarrow> (tensor \<times> nat) list \<Rightarrow> neural_network" where
  "train_step autograd loss_fn rate self b =
     (case collate b of
        Inr (X, y) \<Rightarrow>
          self\<lparr>linear_relu_stack :=
            sgd_update rate (linear_relu_stack self)
              (autograd (recorded_loss loss_fn self X y) (linear_relu_stack self))\<rparr>
      | Inl e \<Rightarrow> self)"

definition train_epoch ::
  "((stage list \<Rightarrow> error + real) \<Rightarrow> stage list \<Rightarrow> gradient) \<Rightarrow> (tensor \<Rightarrow> nat list \<Rightarrow> error + real)
     \<Rightarrow> real \<Rightarrow> (tensor \<times> nat) list list \<Rightarrow> neural_network \<Rightarrow> neural_network" where
  "train_epoch autograd loss_fn rate batches self =
     foldl (train_step autograd loss_fn rate) self batches"

text \<open>
  What holds of the state between two batches of a training run: the model has the
  shapes of \<open>NeuralNetwork\<close>, gradient tracking is on, and the gradients fit.
\<close>

definition train_inv :: "state \<Rightarrow> bool" where
  "train_inv s \<longleftrightarrow> wf_model (model s) \<and> grad_enabled s \<and> grad_ok s"


section \<open>The framework's numbers and modules\<close>

text \<open>
  The sections above compute with real numbers and know two kinds of stage. This section
  and the next embed the forward pass and the evaluation loop once more, closer to the
  framework, for the claims that depend on it: the elements are floating-point values,
  which besides finite numbers comprise the two infinities and NaN, and a stage may be
  any module of the framework, whose result may depend on the mode of the model and on
  the random number generator.

  Modelled from the spec: the arithmetic is the framework's (IEEE 754). A finite result
  beyond the largest finite value of the format becomes an infinity; an undefined result
  (\<open>inf - inf\<close>, \<open>inf * 0\<close>, \<open>0 / 0\<close>) is NaN, and NaN propagates; a comparison with NaN is
  false. The rounding of the digits of a finite result within range and the sign of zero
  are not modelled. Tensor elements are float32; the numbers of the Python interpreter
  are float64.
\<close>

datatype float = Finite real | PosInf | NegInf | NaN

definition float32_max :: real where
  "float32_max = (2 ^ 24 - 1) * 2 ^ 104"

definition float64_max :: real where
  "float64_max = (2 ^ 53 - 1) * 2 ^ 971"

definition round_to :: "real \<Rightarrow> real \<Rightarrow> float" where
  "round_to m x = (if m < x then PosInf else if x < - m then NegInf else Finite x)"

fun fneg :: "float \<Rightarrow> float" where
  "fneg (Finite x) = Finite (- x)"
| "fneg PosInf = NegInf"
| "fneg NegInf = PosInf"
| "fneg NaN = NaN"

fun fadd :: "real \<Rightarrow> float \<Rightarrow> float \<Rightarrow> float" where
  "fadd m NaN b = NaN"
| "fadd m a NaN = NaN"
| "fadd m (Finite x) (Finite y) = round_to m (x + y)"
| "fadd m PosInf NegInf = NaN"
| "fadd m NegInf PosInf = NaN"
| "fadd m PosInf b = PosInf"
| "fadd m a PosInf = PosInf"
| "fadd m NegInf b = NegInf"
| "fadd m a NegInf = NegInf"

definition fsub :: "real \<Rightarrow> float \<Rightarrow> float \<Rightarrow> float" where
  "fsub m a b = fadd m a (fneg b)"

text \<open>The sign of a value that is not NaN, as \<open>-1\<close>, \<open>0\<close> or \<open>1\<close>.\<close>

fun fsgn :: "float \<Rightarrow> real" where
  "fsgn (Finite x) = sgn x"
| "fsgn PosInf = 1"
| "fsgn NegInf = - 1"
| "fsgn NaN = 0"

fun fmul :: "real \<Rightarrow> float \<Rightarrow> float \<Rightarrow> float" where
  "fmul m NaN b = NaN"
| "fmul m a NaN = NaN"
| "fmul m (Finite x) (Finite y) = round_to m (x * y)"
| "fmul m a b =
     (if fsgn a * fsgn b = 0 then NaN else if 0 < fsgn a * fsgn b then PosInf else NegInf)"

fun fdiv :: "real \<Rightarrow> float \<Rightarrow> float \<Rightarrow> float" where
  "fdiv m NaN b = NaN"
| "fdiv m a NaN = NaN"
| "fdiv m (Finite x) (Finite y) =
     (if y = 0 then (if x = 0 then NaN else if 0 < x then PosInf else NegInf)
      else round_to m (x / y))"
| "fdiv m (Finite x) b = Finite 0"
| "fdiv m a (Finite y) = (if 0 \<le> fsgn a * y then a else fneg a)"
| "fdiv m a b = NaN"

fun fless :: "float \<Rightarrow> float \<Rightarrow> bool" where
  "fless NaN b \<longleftrightarrow> False"
| "fless a NaN \<longleftrightarrow> False"
| "fless (Finite x) (Finite y) \<longleftrightarrow> x < y"
| "fless a NegInf \<longleftrightarrow> False"
| "fless PosInf b \<longleftrightarrow> False"
| "fless a b \<longleftrightarrow> True"

fun fle :: "float \<Rightarrow> float \<Rightarrow> bool" where
  "fle NaN b \<longleftrightarrow> False"
| "fle a NaN \<longleftrightarrow> False"
| "fle (Finite x) (Finite y) \<longleftrightarrow> x \<le> y"
| "fle NegInf b \<longleftrightarrow> True"
| "fle a PosInf \<longleftrightarrow> True"
| "fle a b \<longleftrightarrow> False"

fun fexp :: "real \<Rightarrow> float \<Rightarrow> float" where
  "fexp m (Finite x) = round_to m (exp x)"
| "fexp m PosInf = PosInf"
| "fexp m NegInf = Finite 0"
| "fexp m NaN = NaN"

fun fln :: "float \<Rightarrow> float" where
  "fln (Finite x) = (if x < 0 then NaN else if x = 0 then NegInf else Finite (ln x))"
| "fln PosInf = PosInf"
| "fln NegInf = NaN"
| "fln NaN = NaN"

text \<open>The maximum as the framework's reductions take it: NaN wins.\<close>

definition fmax :: "float \<Rightarrow> float \<Rightarrow> float" where
  "fmax a b = (if a = NaN \<or> b = NaN then NaN else if fless a b then b else a)"

record tensor32 =
  shape32 :: "nat list"
  data32 :: "float list"

text \<open>\<open>torch.full\<close>: the tensor of a shape whose elements all are one value.\<close>

definition full32 :: "nat list \<Rightarrow> float \<Rightarrow> tensor32" where
  "full32 sh c = \<lparr>shape32 = sh, data32 = replicate (prod_list sh) c\<rparr>"

text \<open>
  Modelled from the spec: the layers as in section ``The framework's layers'', over
  float32. \<open>nn.ReLU\<close> is \<open>0\<close> for an element below 0 and the element otherwise, so NaN
  stays NaN. A row of \<open>nn.Linear\<close> is summed from the left, the bias added last; the
  framework fixes no order of summation, and within the range of the format the order
  does not show.
\<close>

definition nn_Flatten32 :: "tensor32 \<Rightarrow> error + tensor32" where
  "nn_Flatten32 x =
     (case shape32 x of
        d0 # d1 # ds \<Rightarrow> Inr (x\<lparr>shape32 := [d0, prod_list (d1 # ds)]\<rparr>)
      | _ \<Rightarrow> Inl IndexError)"

definition relu32 :: "float \<Rightarrow> float" where
  "relu32 x = (if fless x (Finite 0) then Finite 0 else x)"

definition nn_ReLU32 :: "tensor32 \<Rightarrow> tensor32" where
  "nn_ReLU32 x = x\<lparr>data32 := map relu32 (data32 x)\<rparr>"

definition sum32 :: "float list \<Rightarrow> float" where
  "sum32 xs = foldl (fadd float32_max) (Finite 0) xs"

definition dot32 :: "float list \<Rightarrow> float list \<Rightarrow> float" where
  "dot32 u v = sum32 (map2 (fmul float32_max) u v)"

definition nn_Linear32 :: "tensor32 \<Rightarrow> tensor32 \<Rightarrow> tensor32 \<Rightarrow> error + tensor32" where
  "nn_Linear32 W b x =
     (case shape32 W of
        [out_features, in_features] \<Rightarrow>
          if shape32 x \<noteq> [] \<and> last (shape32 x) = in_features then
            Inr \<lparr>shape32 = butlast (shape32 x) @ [out_features],
                 data32 = concat (map (\<lambda>r. map2 (\<lambda>w bj. fadd float32_max (dot32 r w) bj)
                                            (rows out_features in_features (data32 W)) (data32 b))
                                    (rows (prod_list (butlast (shape32 x))) in_features (data32 x)))\<rparr>
          else Inl RuntimeError
      | _ \<Rightarrow> Inl RuntimeError)"

text \<open>
  A stage is one of the two layers the model uses, or any other module of the framework.
  The result of a module may depend on the mode flag of the model (\<open>nn.Dropout\<close> and
  \<open>nn.BatchNorm\<close>, which the note on \<open>model.eval()\<close> names, behave differently in training
  and in evaluation mode) and on the state of the random number generator, which it may
  advance (\<open>nn.Dropout\<close> draws its mask from it). The generator is the sequence of the
  numbers it will return.
\<close>

datatype stage32 =
  Linear32 (weight32: tensor32) (bias32: tensor32)
| ReLU32
| Module32 "bool \<Rightarrow> (nat \<Rightarrow> real) \<Rightarrow> tensor32 \<Rightarrow> error + (tensor32 \<times> (nat \<Rightarrow> real))"

record neural_network32 =
  linear_relu_stack32 :: "stage32 list"
  training32 :: bool

definition Linear32_init :: "nat \<Rightarrow> nat \<Rightarrow> (nat \<Rightarrow> float) \<Rightarrow> (nat \<Rightarrow> float) \<Rightarrow> stage32" where
  "Linear32_init in_features out_features w0 b0 =
     Linear32 \<lparr>shape32 = [out_features, in_features], data32 = map w0 [0..<out_features * in_features]\<rparr>
              \<lparr>shape32 = [out_features], data32 = map b0 [0..<out_features]\<rparr>"

definition NeuralNetwork32 :: "(nat \<Rightarrow> nat \<Rightarrow> float) \<Rightarrow> neural_network32" where
  "NeuralNetwork32 rnd =
     \<lparr>linear_relu_stack32 =
        [Linear32_init (28 * 28) 512 (rnd 0) (rnd 1),
         ReLU32,
         Linear32_init 512 512 (rnd 2) (rnd 3),
         ReLU32,
         Linear32_init 512 10 (rnd 4) (rnd 5),
         ReLU32],
      training32 = True\<rparr>"

fun apply_stage32 ::
  "bool \<Rightarrow> (nat \<Rightarrow> real) \<Rightarrow> stage32 \<Rightarrow> tensor32 \<Rightarrow> error + (tensor32 \<times> (nat \<Rightarrow> real))" where
  "apply_stage32 mode gen (Linear32 W b) x = bind_err (nn_Linear32 W b x) (\<lambda>y. Inr (y, gen))"
| "apply_stage32 mode gen ReLU32 x = Inr (nn_ReLU32 x, gen)"
| "apply_stage32 mode gen (Module32 f) x = f mode gen x"

fun Sequential32 ::
  "bool \<Rightarrow> stage32 list \<Rightarrow> (nat \<Rightarrow> real) \<Rightarrow> tensor32 \<Rightarrow> error + (tensor32 \<times> (nat \<Rightarrow> real))" where
  "Sequential32 mode [] gen x = Inr (x, gen)"
| "Sequential32 mode (s # ss) gen x =
     bind_err (apply_stage32 mode gen s x) (\<lambda>(y, gen'). Sequential32 mode ss gen' y)"

definition forward32 ::
  "neural_network32 \<Rightarrow> (nat \<Rightarrow> real) \<Rightarrow> tensor32 \<Rightarrow> error + (tensor32 \<times> (nat \<Rightarrow> real))" where
  "forward32 self gen x =
     bind_err (nn_Flatten32 x) (Sequential32 (training32 self) (linear_relu_stack32 self) gen)"

definition eval32 :: "neural_network32 \<Rightarrow> neural_network32" where
  "eval32 self = self\<lparr>training32 := False\<rparr>"

text \<open>The two layers of the model are plain: they are not modules of the third kind.\<close>

fun plain :: "stage32 \<Rightarrow> bool" where
  "plain (Linear32 W b) \<longleftrightarrow> True"
| "plain ReLU32 \<longleftrightarrow> True"
| "plain (Module32 f) \<longleftrightarrow> False"


section \<open>The evaluation loop over floating-point values\<close>

record dataloader32 =
  dataset32 :: "(tensor32 \<times> nat) list"
  batch_size32 :: nat

definition collate32 :: "(tensor32 \<times> nat) list \<Rightarrow> error + (tensor32 \<times> nat list)" where
  "collate32 b =
     (case b of
        [] \<Rightarrow> Inl IndexError
      | (x0, _) # _ \<Rightarrow>
          if list_all (\<lambda>(x, _). shape32 x = shape32 x0) b then
            Inr (\<lparr>shape32 = length b # shape32 x0, data32 = concat (map (\<lambda>(x, _). data32 x) b)\<rparr>,
                 map snd b)
          else Inl RuntimeError)"

text \<open>
  Modelled from the spec: \<open>nn.CrossEntropyLoss\<close> as in section ``Loss and prediction'',
  computed the way the framework computes it. The log-softmax of a row subtracts the
  maximum of the row first: an entry is \<open>x - max - log (sum (exp (x - max)))\<close>. The mean
  over the batch is the sum divided by the number of labels, which for an empty batch is
  \<open>0 / 0\<close>.
\<close>

fun max32 :: "float list \<Rightarrow> float" where
  "max32 [] = NegInf"
| "max32 (x # xs) = foldl fmax x xs"

definition log_softmax32 :: "float list \<Rightarrow> float list" where
  "log_softmax32 xs =
     (let mx = max32 xs;
          lse = fln (sum32 (map (\<lambda>x. fexp float32_max (fsub float32_max x mx)) xs))
      in map (\<lambda>x. fsub float32_max (fsub float32_max x mx) lse) xs)"

definition nll_loss32 :: "float list list \<Rightarrow> nat list \<Rightarrow> error + float" where
  "nll_loss32 logp y =
     (if length logp \<noteq> length y then Inl ValueError
      else if list_all (\<lambda>(lp, t). t < length lp) (zip logp y) then
        Inr (fdiv float32_max (sum32 (map (\<lambda>(lp, t). fneg (lp ! t)) (zip logp y)))
                              (round_to float32_max (real (length y))))
      else Inl IndexError)"

definition CrossEntropyLoss32 :: "tensor32 \<Rightarrow> nat list \<Rightarrow> error + float" where
  "CrossEntropyLoss32 pred y =
     (case shape32 pred of
        [B, C] \<Rightarrow> nll_loss32 (map log_softmax32 (rows B C (data32 pred))) y
      | _ \<Rightarrow> Inl RuntimeError)"

text \<open>
  Modelled from the spec: \<open>pred.argmax(1)\<close> as in section ``Loss and prediction''; a NaN
  counts as larger than every number.
\<close>

fun argmax32 :: "float list \<Rightarrow> nat" where
  "argmax32 [] = 0"
| "argmax32 [x] = 0"
| "argmax32 (x # y # ys) =
     (let k = argmax32 (y # ys) in
      if x = NaN then 0 else if (y # ys) ! k = NaN \<or> fless x ((y # ys) ! k) then Suc k else 0)"

definition argmax1_32 :: "tensor32 \<Rightarrow> error + nat list" where
  "argmax1_32 pred =
     (case shape32 pred of
        [B, C] \<Rightarrow> if C = 0 then Inl IndexError else Inr (map argmax32 (rows B C (data32 pred)))
      | _ \<Rightarrow> Inl IndexError)"

text \<open>
  The state as in section ``Program state'', with the random number generator of the
  framework, which a forward pass may advance. The printed line records the two
  variables as floating-point values.
\<close>

datatype printed32 = TestError32 float float

record state32 =
  model32 :: neural_network32
  generator32 :: "nat \<Rightarrow> real"
  grad_enabled32 :: bool
  graphs32 :: nat
  stdout32 :: "printed32 list"

definition call_model32 :: "tensor32 \<Rightarrow> state32 \<Rightarrow> error + (tensor32 \<times> state32)" where
  "call_model32 X s =
     bind_err (forward32 (model32 s) (generator32 s) X)
       (\<lambda>(pred, gen').
          Inr (pred, (if grad_enabled32 s then s\<lparr>graphs32 := graphs32 s + 1\<rparr> else s)
                       \<lparr>generator32 := gen'\<rparr>))"

definition no_grad32 ::
  "(state32 \<Rightarrow> error + ('a \<times> state32)) \<Rightarrow> state32 \<Rightarrow> error + ('a \<times> state32)" where
  "no_grad32 body s =
     bind_err (body (s\<lparr>grad_enabled32 := False\<rparr>))
       (\<lambda>(r, s'). Inr (r, s'\<lparr>grad_enabled32 := grad_enabled32 s\<rparr>))"

text \<open>
  \<open>test_loop(dataloader, model, loss_fn)\<close>, as in section ``The evaluation loop''. The
  loss of a batch and the number of its correctly classified samples are float32 values
  that \<open>.item()\<close> turns into numbers of the interpreter, which are float64; \<open>+=\<close> and \<open>/=\<close> are
  the interpreter's. A length is turned into a floating-point value by \<open>round_to\<close>; for a
  length beyond the largest float64 value the interpreter raises an error instead.
\<close>

fun test_batches32 ::
  "(tensor32 \<Rightarrow> nat list \<Rightarrow> error + float) \<Rightarrow> (tensor32 \<times> nat) list list \<Rightarrow> float \<times> float
     \<Rightarrow> state32 \<Rightarrow> error + ((float \<times> float) \<times> state32)" where
  "test_batches32 loss_fn [] (test_loss, correct) s = Inr ((test_loss, correct), s)"
| "test_batches32 loss_fn (b # bs) (test_loss, correct) s =
     bind_err (collate32 b) (\<lambda>(X, y).
     bind_err (call_model32 X s) (\<lambda>(pred, s1).
     bind_err (loss_fn pred y) (\<lambda>l.
     bind_err (argmax1_32 pred) (\<lambda>am.
       test_batches32 loss_fn bs
         (fadd float64_max test_loss l,
          fadd float64_max correct (round_to float32_max (real (count_equal am y)))) s1))))"

definition test_loop32 ::
  "dataloader32 \<Rightarrow> (tensor32 \<Rightarrow> nat list \<Rightarrow> error + float) \<Rightarrow> state32 \<Rightarrow> error + state32" where
  "test_loop32 dataloader loss_fn s =
     (let size = length (dataset32 dataloader) in
      bind_err
        (no_grad32 (test_batches32 loss_fn (chunks (batch_size32 dataloader) (dataset32 dataloader))
                      (Finite 0, Finite 0)) s)
        (\<lambda>((test_loss, correct), s1).
           if size = 0 then Inl ZeroDivisionError
           else Inr (s1\<lparr>stdout32 := stdout32 s1 @
                      [TestError32 (fdiv float64_max correct (round_to float64_max (real size)))
                                   (fdiv float64_max test_loss (round_to float64_max (real size)))]\<rparr>)))"

text \<open>The state in which a script starts, with a fresh model and a generator.\<close>

definition init_state32 :: "(nat \<Rightarrow> nat \<Rightarrow> float) \<Rightarrow> (nat \<Rightarrow> real) \<Rightarrow> state32" where
  "init_state32 rnd gen =
     \<lparr>model32 = NeuralNetwork32 rnd, generator32 = gen, grad_enabled32 = True, graphs32 = 0,
      stdout32 = []\<rparr>"

text \<open>A value that is at least 0 or is NaN.\<close>

definition nonneg_or_nan :: "float \<Rightarrow> bool" where
  "nonneg_or_nan v \<longleftrightarrow> fle (Finite 0) v \<or> v = NaN"

section \<open>Properties of the forward pass\<close>

lemma length_rows [simp]: "length (rows n k xs) = n"
  by (induction n arbitrary: xs) auto

lemma rows_row_length: "n * k \<le> length xs \<Longrightarrow> r \<in> set (rows n k xs) \<Longrightarrow> length r = k"
proof (induction n arbitrary: xs)
  case 0
  then show ?case by simp
next
  case (Suc n)
  from Suc.prems(1) have k: "k \<le> length xs" and rest: "n * k \<le> length (drop k xs)"
    by auto
  from Suc.prems(2) consider "r = take k xs" | "r \<in> set (rows n k (drop k xs))"
    by auto
  then show ?case
  proof cases
    case 1
    with k show ?thesis by simp
  next
    case 2
    with Suc.IH rest show ?thesis by blast
  qed
qed

lemma rows_nth: "r < n \<Longrightarrow> rows n k xs ! r = take k (drop (r * k) xs)"
proof (induction n arbitrary: xs r)
  case 0
  then show ?case by simp
next
  case (Suc n)
  show ?case
  proof (cases r)
    case 0
    then show ?thesis by simp
  next
    case (Suc r')
    with Suc.prems have "r' < n" by simp
    from Suc.IH [OF this, of "drop k xs"] Suc show ?thesis
      by (simp add: add.commute)
  qed
qed

lemma rows_nth_nth:
  assumes "r < n" "c < k" "n * k \<le> length xs"
  shows "rows n k xs ! r ! c = xs ! (r * k + c)"
proof -
  have "Suc r * k \<le> n * k" using assms(1) by (intro mult_le_mono1) simp
  then have "r * k + c < length xs" using assms by simp
  then show ?thesis using assms by (simp add: rows_nth)
qed

lemma concat_rows: "length xs = n * k \<Longrightarrow> concat (rows n k xs) = xs"
proof (induction n arbitrary: xs)
  case 0
  then show ?case by simp
next
  case (Suc n)
  then have "length (drop k xs) = n * k" by simp
  with Suc.IH have "concat (rows n k (drop k xs)) = drop k xs" by blast
  then show ?case by simp
qed

lemma length_concat_const:
  "\<forall>r \<in> set rs. length r = k \<Longrightarrow> length (concat rs) = length rs * k"
  by (induction rs) auto

lemma nth_concat_const:
  "\<forall>r \<in> set rs. length r = k \<Longrightarrow> i < length rs \<Longrightarrow> j < k \<Longrightarrow> concat rs ! (i * k + j) = rs ! i ! j"
proof (induction rs arbitrary: i)
  case Nil
  then show ?case by simp
next
  case (Cons a rs)
  show ?case
  proof (cases i)
    case 0
    with Cons.prems show ?thesis by (simp add: nth_append)
  next
    case (Suc i')
    with Cons.prems have "concat rs ! (i' * k + j) = rs ! i' ! j"
      by (intro Cons.IH) auto
    with Suc Cons.prems show ?thesis by (simp add: nth_append add.assoc)
  qed
qed

lemma dot_sum: "length u = n \<Longrightarrow> length v = n \<Longrightarrow> dot u v = (\<Sum>i<n. u ! i * v ! i)"
proof -
  assume a: "length u = n" "length v = n"
  have "dot u v = (\<Sum>i = 0..<length (map2 (*) u v). map2 (*) u v ! i)"
    unfolding dot_def by (rule sum_list_sum_nth)
  also have "\<dots> = (\<Sum>i = 0..<n. u ! i * v ! i)"
    using a by (intro sum.cong) auto
  finally show ?thesis by (simp add: lessThan_atLeast0)
qed

lemma bind_err_simps [simp]:
  "bind_err (Inl e) f = Inl e" "bind_err (Inr v) f = f v"
  by (simp_all add: bind_err_def)

lemma bind_err_Inr_iff: "bind_err r f = Inr y \<longleftrightarrow> (\<exists>v. r = Inr v \<and> f v = Inr y)"
  by (cases r) simp_all

lemma Sequential_append:
  "Sequential (ss @ ts) x = bind_err (Sequential ss x) (Sequential ts)"
proof (induction ss arbitrary: x)
  case Nil
  then show ?case by simp
next
  case (Cons s ss)
  then show ?case by (cases "apply_stage s x") simp_all
qed

lemma foldl_bind_Inl: "foldl (\<lambda>acc s. bind_err acc (apply_stage s)) (Inl e) ss = Inl e"
  by (induction ss) simp_all

lemma Sequential_foldl:
  "bind_err r (Sequential ss) = foldl (\<lambda>acc s. bind_err acc (apply_stage s)) r ss"
proof (induction ss arbitrary: r)
  case Nil
  then show ?case by (cases r) simp_all
next
  case (Cons s ss)
  show ?case
  proof (cases r)
    case (Inl e)
    then show ?thesis by (simp add: foldl_bind_Inl)
  next
    case (Inr v)
    then show ?thesis using Cons.IH [of "apply_stage s v"] by simp
  qed
qed

lemma nn_Linear_2d:
  assumes "shape W = [out, inn]" "shape x = [B, inn]"
  shows "nn_Linear W b x =
    Inr \<lparr>shape = [B, out],
         data = concat (map (\<lambda>r. map2 (\<lambda>w bj. dot r w + bj) (rows out inn (data W)) (data b))
                            (rows B inn (data x)))\<rparr>"
  using assms by (simp add: nn_Linear_def)

lemma linear_row_length:
  "length (data b) = out \<Longrightarrow> length (map2 (\<lambda>w bj. dot r w + bj) (rows out inn ws) (data b)) = out"
  by simp

lemma nn_Linear_entry:
  assumes W: "shape W = [out, inn]" "length (data W) = out * inn"
    and b: "length (data b) = out"
    and x: "shape x = [B, inn]" "length (data x) = B * inn"
    and y: "nn_Linear W b x = Inr y"
    and r: "r < B" and j: "j < out"
  shows "at2 y r j = (\<Sum>i<inn. at2 x r i * at2 W j i) + data b ! j"
proof -
  let ?f = "\<lambda>r. map2 (\<lambda>w bj. dot r w + bj) (rows out inn (data W)) (data b)"
  let ?xs = "rows B inn (data x)"
  from y have yd: "data y = concat (map ?f ?xs)" and ys: "shape y = [B, out]"
    using nn_Linear_2d [OF W(1) x(1), of b] by auto
  have len: "\<forall>row \<in> set (map ?f ?xs). length row = out"
    using b by simp
  have "at2 y r j = concat (map ?f ?xs) ! (r * out + j)"
    by (simp add: at2_def ys yd)
  also have "\<dots> = map ?f ?xs ! r ! j"
    using len r j by (intro nth_concat_const) simp_all
  also have "\<dots> = dot (?xs ! r) (rows out inn (data W) ! j) + data b ! j"
    using r j b by simp
  also have "dot (?xs ! r) (rows out inn (data W) ! j)
      = (\<Sum>i<inn. ?xs ! r ! i * rows out inn (data W) ! j ! i)"
  proof (rule dot_sum)
    show "length (?xs ! r) = inn"
      using r x(2) by (intro rows_row_length [of B inn "data x"]) simp_all
    show "length (rows out inn (data W) ! j) = inn"
      using j W(2) by (intro rows_row_length [of out inn "data W"]) simp_all
  qed
  also have "\<dots> = (\<Sum>i<inn. at2 x r i * at2 W j i)"
    using r j x W by (intro sum.cong) (simp_all add: rows_nth_nth at2_def)
  finally show ?thesis .
qed

lemma transposeT_shape: "shape t = [m, n] \<Longrightarrow> shape (transposeT t) = [n, m]"
  by (simp add: transposeT_def)

lemma transposeT_entry:
  assumes "shape t = [m, n]" "i < n" "j < m"
  shows "at2 (transposeT t) i j = at2 t j i"
proof -
  let ?rs = "map (\<lambda>i. map (\<lambda>j. data t ! (j * n + i)) [0..<m]) [0..<n]"
  have "at2 (transposeT t) i j = concat ?rs ! (i * m + j)"
    using assms(1) by (simp add: at2_def transposeT_def)
  also have "\<dots> = ?rs ! i ! j"
    using assms by (intro nth_concat_const) auto
  also have "\<dots> = at2 t j i"
    using assms by (simp add: at2_def)
  finally show ?thesis .
qed

lemma nn_Linear_wf:
  assumes "shape W = [out, inn]" "length (data b) = out" "shape x = [B, inn]"
    and "nn_Linear W b x = Inr y"
  shows "shape y = [B, out] \<and> wf_tensor y"
proof -
  from assms(4) nn_Linear_2d [OF assms(1,3), of b]
  have y: "y = \<lparr>shape = [B, out],
         data = concat (map (\<lambda>r. map2 (\<lambda>w bj. dot r w + bj) (rows out inn (data W)) (data b))
                            (rows B inn (data x)))\<rparr>" by simp
  have "length (data y) = length (map (\<lambda>r. map2 (\<lambda>w bj. dot r w + bj) (rows out inn (data W)) (data b))
                            (rows B inn (data x))) * out"
    unfolding y using assms(2) by (simp only: tensor.simps, intro length_concat_const) simp
  then show ?thesis by (simp add: y wf_tensor_def)
qed

lemma relu_max: "relu v = max 0 v"
  by (simp add: relu_def max_def)

text \<open>
  C1. The forward pass applies the stages of \<open>linear_relu_stack\<close> one after the other, in
  list order, to the flattened input. A linear stage applied to a \<open>B \<times> in\<close> input gives the
  \<open>B \<times> out\<close> tensor \<open>input \<cdot> weight^T + bias\<close>; the nonlinearity stage gives
  \<open>max 0\<close> of every element.
\<close>

theorem forward_stages_in_sequence:
  "forward self x =
      foldl (\<lambda>acc s. bind_err acc (apply_stage s)) (nn_Flatten x) (linear_relu_stack self)
   \<and> (\<forall>W b t B out inn.
        shape W = [out, inn] \<and> wf_tensor W \<and> shape b = [out] \<and> wf_tensor b \<and>
        shape t = [B, inn] \<and> wf_tensor t \<longrightarrow>
        (\<exists>y. apply_stage (Linear W b) t = Inr y \<and> shape y = [B, out] \<and> wf_tensor y \<and>
           (\<forall>r<B. \<forall>j<out.
              at2 y r j = (\<Sum>i<inn. at2 t r i * at2 (transposeT W) i j) + data b ! j)))
   \<and> (\<forall>t. \<exists>y. apply_stage ReLU t = Inr y \<and> shape y = shape t \<and>
          length (data y) = length (data t) \<and>
          (\<forall>i<length (data t). data y ! i = max 0 (data t ! i)))"
proof (intro conjI allI impI)
  show "forward self x =
      foldl (\<lambda>acc s. bind_err acc (apply_stage s)) (nn_Flatten x) (linear_relu_stack self)"
    unfolding forward_def by (rule Sequential_foldl)
next
  fix W b t B out inn
  assume a: "shape W = [out, inn] \<and> wf_tensor W \<and> shape b = [out] \<and> wf_tensor b \<and>
        shape t = [B, inn] \<and> wf_tensor t"
  then have W: "shape W = [out, inn]" "length (data W) = out * inn"
    and b: "length (data b) = out"
    and t: "shape t = [B, inn]" "length (data t) = B * inn"
    by (simp_all add: wf_tensor_def)
  obtain y where y: "nn_Linear W b t = Inr y"
    using nn_Linear_2d [OF W(1) t(1)] by blast
  have "\<forall>r<B. \<forall>j<out. at2 y r j = (\<Sum>i<inn. at2 t r i * at2 (transposeT W) i j) + data b ! j"
  proof (intro allI impI)
    fix r j
    assume rj: "r < B" "j < out"
    have "(\<Sum>i<inn. at2 t r i * at2 (transposeT W) i j) = (\<Sum>i<inn. at2 t r i * at2 W j i)"
      using rj W(1) by (intro sum.cong) (simp_all add: transposeT_entry)
    then show "at2 y r j = (\<Sum>i<inn. at2 t r i * at2 (transposeT W) i j) + data b ! j"
      using nn_Linear_entry [OF W b t y rj] by simp
  qed
  with y nn_Linear_wf [OF W(1) b t(1) y]
  show "\<exists>y. apply_stage (Linear W b) t = Inr y \<and> shape y = [B, out] \<and> wf_tensor y \<and>
           (\<forall>r<B. \<forall>j<out.
              at2 y r j = (\<Sum>i<inn. at2 t r i * at2 (transposeT W) i j) + data b ! j)"
    by simp
next
  fix t
  show "\<exists>y. apply_stage ReLU t = Inr y \<and> shape y = shape t \<and>
          length (data y) = length (data t) \<and>
          (\<forall>i<length (data t). data y ! i = max 0 (data t ! i))"
    by (simp add: nn_ReLU_def relu_max)
qed

lemma stage_shape_Some: "stage_shape s = Some (sw, sb) \<Longrightarrow> \<exists>W b. s = Linear W b \<and> shape W = sw \<and> shape b = sb"
  by (cases s) auto

lemma stage_shape_None: "stage_shape s = None \<Longrightarrow> s = ReLU"
  by (cases s) auto

lemma wf_modelE:
  assumes "wf_model self"
  obtains W1 b1 W2 b2 W3 b3 where
    "linear_relu_stack self = [Linear W1 b1, ReLU, Linear W2 b2, ReLU, Linear W3 b3, ReLU]"
    "shape W1 = [512, 784]" "shape b1 = [512]" "wf_tensor W1" "wf_tensor b1"
    "shape W2 = [512, 512]" "shape b2 = [512]" "wf_tensor W2" "wf_tensor b2"
    "shape W3 = [10, 512]" "shape b3 = [10]" "wf_tensor W3" "wf_tensor b3"
proof -
  from assms have m: "map stage_shape (linear_relu_stack self) =
     [Some ([512, 784], [512]), None, Some ([512, 512], [512]), None, Some ([10, 512], [10]), None]"
    and wf: "list_all wf_stage (linear_relu_stack self)"
    by (simp_all add: wf_model_def NeuralNetwork_shapes_def)
  from m obtain s1 s2 s3 s4 s5 s6 where ss: "linear_relu_stack self = [s1, s2, s3, s4, s5, s6]"
    and s: "stage_shape s1 = Some ([512, 784], [512])" "stage_shape s2 = None"
      "stage_shape s3 = Some ([512, 512], [512])" "stage_shape s4 = None"
      "stage_shape s5 = Some ([10, 512], [10])" "stage_shape s6 = None"
    by (auto simp: map_eq_Cons_conv)
  from s(1) obtain W1 b1 where 1: "s1 = Linear W1 b1" "shape W1 = [512, 784]" "shape b1 = [512]"
    by (blast dest: stage_shape_Some)
  from s(3) obtain W2 b2 where 2: "s3 = Linear W2 b2" "shape W2 = [512, 512]" "shape b2 = [512]"
    by (blast dest: stage_shape_Some)
  from s(5) obtain W3 b3 where 3: "s5 = Linear W3 b3" "shape W3 = [10, 512]" "shape b3 = [10]"
    by (blast dest: stage_shape_Some)
  from s(2,4,6) have r: "s2 = ReLU" "s4 = ReLU" "s6 = ReLU"
    by (simp_all add: stage_shape_None)
  from wf have "wf_tensor W1" "wf_tensor b1" "wf_tensor W2" "wf_tensor b2" "wf_tensor W3" "wf_tensor b3"
    by (simp_all add: ss 1 2 3)
  with ss 1 2 3 r that show thesis by blast
qed

lemma stage_shape_Linear_init [simp]:
  "stage_shape (Linear_init i k w0 b0) = Some ([k, i], [k])"
  by (simp add: Linear_init_def)

lemma wf_stage_Linear_init [simp]: "wf_stage (Linear_init i k w0 b0)"
  by (simp add: Linear_init_def wf_tensor_def)

lemma wf_model_NeuralNetwork: "wf_model (NeuralNetwork rnd)"
  by (simp add: wf_model_def NeuralNetwork_def NeuralNetwork_shapes_def)

lemma nn_ReLU_shape [simp]: "shape (nn_ReLU x) = shape x"
  by (simp add: nn_ReLU_def)

lemma nn_ReLU_wf [simp]: "wf_tensor (nn_ReLU x) = wf_tensor x"
  by (simp add: nn_ReLU_def wf_tensor_def)

lemma nn_ReLU_nonneg: "v \<in> set (data (nn_ReLU x)) \<Longrightarrow> 0 \<le> v"
  by (auto simp: nn_ReLU_def relu_def)

lemma linear_stage_2d:
  assumes "shape W = [out, inn]" "shape b = [out]" "wf_tensor b" "shape x = [B, inn]"
  obtains y where "nn_Linear W b x = Inr y" "shape y = [B, out]" "wf_tensor y"
proof -
  from assms(2,3) have b: "length (data b) = out" by (simp add: wf_tensor_def)
  obtain y where y: "nn_Linear W b x = Inr y"
    using nn_Linear_2d [OF assms(1,4)] by blast
  from nn_Linear_wf [OF assms(1) b assms(4) y] y that show thesis by blast
qed


lemma forward_wf_model:
  assumes wf: "wf_model self" and X: "nn_Flatten X = Inr x0" "shape x0 = [B, 784]"
  obtains logits where "forward self X = Inr logits" "shape logits = [B, 10]" "wf_tensor logits"
proof -
  from wf obtain W1 b1 W2 b2 W3 b3 where
    ss: "linear_relu_stack self = [Linear W1 b1, ReLU, Linear W2 b2, ReLU, Linear W3 b3, ReLU]"
    and 1: "shape W1 = [512, 784]" "shape b1 = [512]" "wf_tensor b1"
    and 2: "shape W2 = [512, 512]" "shape b2 = [512]" "wf_tensor b2"
    and 3: "shape W3 = [10, 512]" "shape b3 = [10]" "wf_tensor b3"
    by (rule wf_modelE)
  obtain y1 where y1: "nn_Linear W1 b1 x0 = Inr y1" "shape y1 = [B, 512]"
    using linear_stage_2d [OF 1 X(2)] by blast
  obtain y2 where y2: "nn_Linear W2 b2 (nn_ReLU y1) = Inr y2" "shape y2 = [B, 512]"
    using linear_stage_2d [OF 2, of "nn_ReLU y1" B] y1(2) by auto
  obtain y3 where y3: "nn_Linear W3 b3 (nn_ReLU y2) = Inr y3" "shape y3 = [B, 10]" "wf_tensor y3"
    using linear_stage_2d [OF 3, of "nn_ReLU y2" B] y2(2) by auto
  have "forward self X = Inr (nn_ReLU y3)"
    by (simp add: forward_def X(1) ss y1 y2 y3)
  with y3 that show thesis by simp
qed


lemma Sequential_last_ReLU:
  assumes "Sequential (ss @ [ReLU]) x = Inr y"
  shows "\<forall>v \<in> set (data y). 0 \<le> v"
proof -
  from assms obtain h where "y = nn_ReLU h"
    by (auto simp: Sequential_append bind_err_Inr_iff)
  then show ?thesis by (auto dest: nn_ReLU_nonneg)
qed

text \<open>
  Over the real numbers every score of a stack that ends with a ReLU is at least 0. Over
  float32 this is not so: see section ``Properties of the floating-point embedding''.
\<close>

lemma forward_scores_nonnegative_exact:
  assumes "linear_relu_stack self = ss @ [ReLU]" "forward self x = Inr logits"
  shows "\<forall>v \<in> set (data logits). 0 \<le> v"
proof -
  from assms obtain x0 where "Sequential (ss @ [ReLU]) x0 = Inr logits"
    by (auto simp: forward_def bind_err_Inr_iff)
  then show ?thesis by (rule Sequential_last_ReLU)
qed

lemma stage_kind_Linear_init [simp]: "stage_kind (Linear_init i k w0 b0) = ''Linear''"
  by (simp add: Linear_init_def)

lemma NeuralNetwork_kinds:
  "map stage_kind (linear_relu_stack (NeuralNetwork rnd))
     = [''Linear'', ''ReLU'', ''Linear'', ''ReLU'', ''Linear'', ''ReLU'']"
  by (simp add: NeuralNetwork_def)

lemma NeuralNetwork_ends_with_ReLU:
  "linear_relu_stack (NeuralNetwork rnd)
     = [Linear_init (28 * 28) 512 (rnd 0) (rnd 1), ReLU, Linear_init 512 512 (rnd 2) (rnd 3), ReLU,
        Linear_init 512 10 (rnd 4) (rnd 5)] @ [ReLU]"
  by (simp add: NeuralNetwork_def)

theorem forward_stages_in_sequence_witness:
  "forward \<lparr>linear_relu_stack = [Linear \<lparr>shape = [1, 2], data = [2, -3]\<rparr> \<lparr>shape = [1], data = [1/2]\<rparr>, ReLU],
            training = True\<rparr> \<lparr>shape = [2, 1, 2], data = [1, 1, 3, 1]\<rparr>
     = Inr \<lparr>shape = [2, 1], data = [0, 7/2]\<rparr>
   \<and> (\<exists>y. apply_stage (Linear \<lparr>shape = [1, 2], data = [2, -3]\<rparr> \<lparr>shape = [1], data = [1/2]\<rparr>)
             \<lparr>shape = [2, 2], data = [1, 1, 3, 1]\<rparr> = Inr y
          \<and> shape y = [2, 1] \<and> at2 y 0 0 = - 1/2 \<and> at2 y 1 0 = 7/2)"
proof -
  let ?W = "\<lparr>shape = [1, 2], data = [2, -3]\<rparr>"
  let ?b = "\<lparr>shape = [1], data = [1/2]\<rparr>"
  let ?t = "\<lparr>shape = [2, 2], data = [1, 1, 3, 1]\<rparr>"
  let ?self = "\<lparr>linear_relu_stack = [Linear ?W ?b, ReLU], training = True\<rparr>"
  let ?x = "\<lparr>shape = [2, 1, 2], data = [1, 1, 3, 1]\<rparr>"
  note main = forward_stages_in_sequence [of ?self ?x]
  from main have seq: "forward ?self ?x =
      foldl (\<lambda>acc s. bind_err acc (apply_stage s)) (nn_Flatten ?x) (linear_relu_stack ?self)"
    by (rule conjunct1)
  have hyp: "shape ?W = [1, 2] \<and> wf_tensor ?W \<and> shape ?b = [1] \<and> wf_tensor ?b \<and>
        shape ?t = [2, 2] \<and> wf_tensor ?t"
    by (simp add: wf_tensor_def)
  from main have "\<forall>W b t B out inn.
        shape W = [out, inn] \<and> wf_tensor W \<and> shape b = [out] \<and> wf_tensor b \<and>
        shape t = [B, inn] \<and> wf_tensor t \<longrightarrow>
        (\<exists>y. apply_stage (Linear W b) t = Inr y \<and> shape y = [B, out] \<and> wf_tensor y \<and>
           (\<forall>r<B. \<forall>j<out.
              at2 y r j = (\<Sum>i<inn. at2 t r i * at2 (transposeT W) i j) + data b ! j))"
    by blast
  with hyp obtain y where y: "apply_stage (Linear ?W ?b) ?t = Inr y" "shape y = [2, 1]"
    and e: "\<forall>r<2. \<forall>j<1.
              at2 y r j = (\<Sum>i<2. at2 ?t r i * at2 (transposeT ?W) i j) + data ?b ! j"
    by blast
  from e have "at2 y 0 0 = (\<Sum>i<2. at2 ?t 0 i * at2 (transposeT ?W) i 0) + data ?b ! 0"
    and "at2 y 1 0 = (\<Sum>i<2. at2 ?t 1 i * at2 (transposeT ?W) i 0) + data ?b ! 0"
    by simp_all
  then have "at2 y 0 0 = - 1/2" "at2 y 1 0 = 7/2"
    by (simp_all add: at2_def transposeT_def lessThan_Suc numeral_2_eq_2)
  with y have 2: "\<exists>y. apply_stage (Linear ?W ?b) ?t = Inr y
          \<and> shape y = [2, 1] \<and> at2 y 0 0 = - 1/2 \<and> at2 y 1 0 = 7/2"
    by blast
  have "forward ?self ?x = Inr \<lparr>shape = [2, 1], data = [0, 7/2]\<rparr>"
    unfolding seq
    by (simp add: nn_Flatten_def nn_Linear_def nn_ReLU_def relu_def dot_def numeral_2_eq_2)
  with 2 show ?thesis by blast
qed


section \<open>Properties of persistence\<close>

lemma str_nat_digits [simp]:
  "str_nat 0 = ''0''"
  "str_nat (Suc 0) = ''1''"
  "str_nat (Suc (Suc 0)) = ''2''"
  "str_nat (Suc (Suc (Suc 0))) = ''3''"
  "str_nat (Suc (Suc (Suc (Suc 0)))) = ''4''"
  "str_nat (Suc (Suc (Suc (Suc (Suc 0))))) = ''5''"
  by (simp_all add: str_nat.simps)

lemma model_shapesE:
  assumes "map stage_shape (linear_relu_stack self) = NeuralNetwork_shapes"
  obtains W1 b1 W2 b2 W3 b3 where
    "linear_relu_stack self = [Linear W1 b1, ReLU, Linear W2 b2, ReLU, Linear W3 b3, ReLU]"
    "shape W1 = [512, 784]" "shape b1 = [512]"
    "shape W2 = [512, 512]" "shape b2 = [512]"
    "shape W3 = [10, 512]" "shape b3 = [10]"
proof -
  from assms have m: "map stage_shape (linear_relu_stack self) =
     [Some ([512, 784], [512]), None, Some ([512, 512], [512]), None, Some ([10, 512], [10]), None]"
    by (simp add: NeuralNetwork_shapes_def)
  from m obtain s1 s2 s3 s4 s5 s6 where ss: "linear_relu_stack self = [s1, s2, s3, s4, s5, s6]"
    and s: "stage_shape s1 = Some ([512, 784], [512])" "stage_shape s2 = None"
      "stage_shape s3 = Some ([512, 512], [512])" "stage_shape s4 = None"
      "stage_shape s5 = Some ([10, 512], [10])" "stage_shape s6 = None"
    by (auto simp: map_eq_Cons_conv)
  from s(1) obtain W1 b1 where 1: "s1 = Linear W1 b1" "shape W1 = [512, 784]" "shape b1 = [512]"
    by (blast dest: stage_shape_Some)
  from s(3) obtain W2 b2 where 2: "s3 = Linear W2 b2" "shape W2 = [512, 512]" "shape b2 = [512]"
    by (blast dest: stage_shape_Some)
  from s(5) obtain W3 b3 where 3: "s5 = Linear W3 b3" "shape W3 = [10, 512]" "shape b3 = [10]"
    by (blast dest: stage_shape_Some)
  from s(2,4,6) have r: "s2 = ReLU" "s4 = ReLU" "s6 = ReLU"
    by (simp_all add: stage_shape_None)
  with ss 1 2 3 that show thesis by blast
qed

lemma NeuralNetwork_shapes_fresh:
  "map stage_shape (linear_relu_stack (NeuralNetwork rnd)) = NeuralNetwork_shapes"
  using wf_model_NeuralNetwork [of rnd] by (simp add: wf_model_def)

lemma load_state_dict_roundtrip:
  assumes m: "map stage_shape (linear_relu_stack trained) = NeuralNetwork_shapes"
    and f: "map stage_shape (linear_relu_stack fresh) = NeuralNetwork_shapes"
  shows "load_state_dict fresh (state_dict trained) =
           Inr (fresh\<lparr>linear_relu_stack := linear_relu_stack trained\<rparr>)"
proof -
  from m obtain W1 b1 W2 b2 W3 b3 where
    ms: "linear_relu_stack trained = [Linear W1 b1, ReLU, Linear W2 b2, ReLU, Linear W3 b3, ReLU]"
    and msh: "shape W1 = [512, 784]" "shape b1 = [512]" "shape W2 = [512, 512]" "shape b2 = [512]"
      "shape W3 = [10, 512]" "shape b3 = [10]"
    by (rule model_shapesE)
  from f obtain V1 c1 V2 c2 V3 c3 where
    fs: "linear_relu_stack fresh = [Linear V1 c1, ReLU, Linear V2 c2, ReLU, Linear V3 c3, ReLU]"
    and fsh: "shape V1 = [512, 784]" "shape c1 = [512]" "shape V2 = [512, 512]" "shape c2 = [512]"
      "shape V3 = [10, 512]" "shape c3 = [10]"
    by (rule model_shapesE)
  have keys: "list_all (\<lambda>k. k \<in> set (map fst (state_dict fresh))) (map fst (state_dict trained))"
    by (simp add: state_dict_def ms fs param_prefix_def)
  have "load_stages (map_of (state_dict trained)) 0 (linear_relu_stack fresh)
      = Inr (linear_relu_stack trained)"
    by (simp add: state_dict_def ms fs param_prefix_def msh fsh)
  with keys show ?thesis by (simp add: load_state_dict_def)
qed

text \<open>
  C3. Saving the state dict of a model that has the shapes of \<open>NeuralNetwork\<close> and loading
  the file into a freshly constructed \<open>NeuralNetwork\<close>, whatever its random initial
  parameters, succeeds and gives a model with the same stack; its forward pass returns
  the same result as the original's on every input.
\<close>

theorem parameter_round_trip:
  assumes "map stage_shape (linear_relu_stack trained) = NeuralNetwork_shapes"
  shows "\<exists>loaded. load_model rnd (save_model trained fs) = Inr loaded \<and>
           linear_relu_stack loaded = linear_relu_stack trained \<and>
           (\<forall>x. forward loaded x = forward trained x)"
proof -
  have "load_model rnd (save_model trained fs)
      = Inr (eval ((NeuralNetwork rnd)\<lparr>linear_relu_stack := linear_relu_stack trained\<rparr>))"
    using load_state_dict_roundtrip [OF assms NeuralNetwork_shapes_fresh [of rnd]]
    by (simp add: load_model_def save_model_def torch_load_def torch_save_def)
  then show ?thesis by (simp add: forward_def eval_def)
qed

theorem parameter_round_trip_witness:
  "\<exists>loaded. load_model (\<lambda>k i. 0) (save_model (NeuralNetwork (\<lambda>k i. 1)) Map.empty) = Inr loaded \<and>
     linear_relu_stack loaded = linear_relu_stack (NeuralNetwork (\<lambda>k i. 1)) \<and>
     forward loaded \<lparr>shape = [1, 28, 28], data = replicate 784 1\<rparr>
       = forward (NeuralNetwork (\<lambda>k i. 1)) \<lparr>shape = [1, 28, 28], data = replicate 784 1\<rparr>"
proof -
  have "map stage_shape (linear_relu_stack (NeuralNetwork (\<lambda>k i. 1))) = NeuralNetwork_shapes"
    by (rule NeuralNetwork_shapes_fresh)
  from parameter_round_trip [OF this, of "\<lambda>k i. 0" Map.empty]
  show ?thesis by blast
qed

section \<open>Properties of the evaluation loop\<close>

lemma chunks_Nil [simp]: "chunks n [] = []"
  by (simp add: chunks.simps)

lemma chunks_0 [simp]: "chunks 0 xs = []"
  by (simp add: chunks.simps)

lemma concat_chunks: "0 < n \<Longrightarrow> concat (chunks n xs) = xs"
proof (induction n xs rule: chunks.induct)
  case (1 n xs)
  show ?case
  proof (cases "xs = []")
    case True
    then show ?thesis by simp
  next
    case False
    with "1.prems" have "concat (chunks n (drop n xs)) = drop n xs"
      by (intro "1.IH") auto
    with False "1.prems" show ?thesis
      by (subst chunks.simps) simp
  qed
qed

lemma chunks_nonempty: "b \<in> set (chunks n xs) \<Longrightarrow> b \<noteq> [] \<and> set b \<subseteq> set xs"
proof (induction n xs rule: chunks.induct)
  case (1 n xs)
  show ?case
  proof (cases "n = 0 \<or> xs = []")
    case True
    with "1.prems" show ?thesis by (auto simp: chunks.simps)
  next
    case False
    with "1.prems" have "b = take n xs \<or> b \<in> set (chunks n (drop n xs))"
      by (subst (asm) chunks.simps) auto
    then show ?thesis
    proof
      assume "b = take n xs"
      with False show ?thesis by (auto dest: in_set_takeD)
    next
      assume "b \<in> set (chunks n (drop n xs))"
      with "1.IH" False have "b \<noteq> [] \<and> set b \<subseteq> set (drop n xs)" by blast
      then show ?thesis by (auto dest: in_set_dropD)
    qed
  qed
qed

lemma chunks_eq_Nil_iff: "0 < n \<Longrightarrow> chunks n xs = [] \<longleftrightarrow> xs = []"
  by (subst chunks.simps) simp

lemma sum_length_chunks: "0 < n \<Longrightarrow> sum_list (map length (chunks n xs)) = length xs"
  using concat_chunks [of n xs] by (metis length_concat)

lemma call_model_no_grad:
  "\<not> grad_enabled s \<Longrightarrow> call_model X s = bind_err (forward (model s) X) (\<lambda>pred. Inr (pred, s))"
  by (simp add: call_model_def)

lemma test_batches_no_grad:
  assumes "\<not> grad_enabled s"
  shows "test_batches loss_fn bs (test_loss, correct) s =
    bind_err (all_ok (map (eval_batch loss_fn (model s)) bs))
      (\<lambda>rs. Inr ((test_loss + sum_list (map fst rs), correct + real (sum_list (map snd rs))), s))"
proof (induction bs arbitrary: test_loss correct)
  case Nil
  then show ?case by simp
next
  case (Cons b bs)
  show ?case
  proof (cases "eval_batch loss_fn (model s) b")
    case (Inl e)
    then show ?thesis
      using assms
      by (auto simp: eval_batch_def call_model_no_grad bind_err_def split: sum.splits prod.splits)
  next
    case (Inr r)
    obtain l c where r: "r = (l, c)" by (cases r)
    from Inr r obtain X y pred am where
      b: "collate b = Inr (X, y)" "forward (model s) X = Inr pred" "loss_fn pred y = Inr l"
        "argmax1 pred = Inr am" "c = count_equal am y"
      by (auto simp: eval_batch_def bind_err_def split: sum.splits prod.splits)
    have "test_batches loss_fn (b # bs) (test_loss, correct) s
        = test_batches loss_fn bs (test_loss + l, correct + real c) s"
      using assms b by (simp add: call_model_no_grad)
    also have "\<dots> = bind_err (all_ok (map (eval_batch loss_fn (model s)) bs))
      (\<lambda>rs. Inr ((test_loss + l + sum_list (map fst rs), correct + real c + real (sum_list (map snd rs))), s))"
      by (rule Cons.IH)
    also have "\<dots> = bind_err (all_ok (map (eval_batch loss_fn (model s)) (b # bs)))
      (\<lambda>rs. Inr ((test_loss + sum_list (map fst rs), correct + real (sum_list (map snd rs))), s))"
      using Inr r by (cases "all_ok (map (eval_batch loss_fn (model s)) bs)") (simp_all add: add.assoc)
    finally show ?thesis .
  qed
qed

lemma test_loop_eq:
  "test_loop dataloader loss_fn s =
     bind_err (all_ok (map (eval_batch loss_fn (model s))
                 (chunks (batch_size dataloader) (dataset dataloader))))
       (\<lambda>rs. if length (dataset dataloader) = 0 then Inl ZeroDivisionError
             else Inr (s\<lparr>stdout := stdout s @
                    [TestError (real (sum_list (map snd rs)) / real (length (dataset dataloader)))
                               (sum_list (map fst rs) / real (length (dataset dataloader)))]\<rparr>))"
proof -
  let ?bs = "chunks (batch_size dataloader) (dataset dataloader)"
  let ?s0 = "s\<lparr>grad_enabled := False\<rparr>"
  have tb: "test_batches loss_fn ?bs (0, 0) ?s0 =
    bind_err (all_ok (map (eval_batch loss_fn (model s)) ?bs))
      (\<lambda>rs. Inr ((0 + sum_list (map fst rs), 0 + real (sum_list (map snd rs))), ?s0))"
    using test_batches_no_grad [of ?s0 loss_fn ?bs 0 0] by simp
  show ?thesis
    unfolding test_loop_def no_grad_def Let_def tb
    by (cases "all_ok (map (eval_batch loss_fn (model s)) ?bs)") simp_all
qed

lemma argmax_is_max:
  "xs \<noteq> [] \<Longrightarrow> argmax xs < length xs \<and> (\<forall>j<length xs. xs ! j \<le> xs ! argmax xs)"
proof (induction xs rule: argmax.induct)
  case 1
  then show ?case by simp
next
  case (2 x)
  then show ?case by simp
next
  case (3 x y ys)
  let ?k = "argmax (y # ys)"
  from "3.IH" have k: "?k < length (y # ys)" and mx: "\<forall>j<length (y # ys). (y # ys) ! j \<le> (y # ys) ! ?k"
    by simp_all
  show ?case
  proof (cases "x < (y # ys) ! ?k")
    case True
    then have a: "argmax (x # y # ys) = Suc ?k" by (simp add: Let_def)
    have "\<forall>j<length (x # y # ys). (x # y # ys) ! j \<le> (x # y # ys) ! Suc ?k"
    proof (intro allI impI)
      fix j assume "j < length (x # y # ys)"
      then show "(x # y # ys) ! j \<le> (x # y # ys) ! Suc ?k"
        using True mx by (cases j) auto
    qed
    with a k show ?thesis by simp
  next
    case False
    then have a: "argmax (x # y # ys) = 0" by (simp add: Let_def)
    have "\<forall>j<length (x # y # ys). (x # y # ys) ! j \<le> (x # y # ys) ! 0"
    proof (intro allI impI)
      fix j assume j: "j < length (x # y # ys)"
      show "(x # y # ys) ! j \<le> (x # y # ys) ! 0"
      proof (cases j)
        case 0
        then show ?thesis by simp
      next
        case (Suc j')
        with j mx have "(y # ys) ! j' \<le> (y # ys) ! ?k" by simp
        with False Suc show ?thesis by simp
      qed
    qed
    with a show ?thesis by simp
  qed
qed

lemma count_equal_card:
  "count_equal am y = card {r. r < length am \<and> r < length y \<and> am ! r = y ! r}"
proof -
  have "count_equal am y = card {i. i < length (zip am y) \<and> (\<lambda>(p, t). p = t) (zip am y ! i)}"
    unfolding count_equal_def by (rule length_filter_conv_card)
  also have "{i. i < length (zip am y) \<and> (\<lambda>(p, t). p = t) (zip am y ! i)}
      = {r. r < length am \<and> r < length y \<and> am ! r = y ! r}"
    by auto
  finally show ?thesis .
qed

lemma count_equal_le: "count_equal am y \<le> length y"
proof -
  have "count_equal am y \<le> length (zip am y)"
    unfolding count_equal_def by (rule length_filter_le)
  then show ?thesis by simp
qed

lemma nth_le_sum_list:
  fixes xs :: "real list"
  shows "\<forall>x \<in> set xs. 0 \<le> x \<Longrightarrow> i < length xs \<Longrightarrow> xs ! i \<le> sum_list xs"
proof (induction xs arbitrary: i)
  case Nil
  then show ?case by simp
next
  case (Cons a xs)
  have nn: "0 \<le> sum_list xs" using Cons.prems(1) by (intro sum_list_nonneg) simp
  show ?case
  proof (cases i)
    case 0
    with nn show ?thesis by simp
  next
    case (Suc i')
    with Cons.prems have "xs ! i' \<le> sum_list xs" by (intro Cons.IH) auto
    with Suc Cons.prems(1) show ?thesis by simp
  qed
qed

lemma log_softmax_nonpos:
  assumes "t < length xs"
  shows "log_softmax xs ! t \<le> 0"
proof -
  let ?S = "sum_list (map exp xs)"
  have "map exp xs ! t \<le> ?S"
    using assms by (intro nth_le_sum_list) auto
  then have le: "exp (xs ! t) \<le> ?S" using assms by simp
  have "xs ! t = ln (exp (xs ! t))" by simp
  also have "\<dots> \<le> ln ?S"
    using le by (intro ln_mono) simp_all
  finally show ?thesis using assms by (simp add: log_softmax_def)
qed

lemma length_log_softmax [simp]: "length (log_softmax xs) = length xs"
  by (simp add: log_softmax_def)

lemma CrossEntropyLoss_nonneg:
  assumes "CrossEntropyLoss pred y = Inr l"
  shows "0 \<le> l"
proof -
  from assms obtain B C where sh: "shape pred = [B, C]"
    by (auto simp: CrossEntropyLoss_def split: list.splits)
  let ?lp = "map log_softmax (rows B C (data pred))"
  from assms sh have n: "nll_loss ?lp y = Inr l" by (simp add: CrossEntropyLoss_def)
  then have ok: "list_all (\<lambda>(lp, t). t < length lp) (zip ?lp y)"
    and l: "l = sum_list (map (\<lambda>(lp, t). - (lp ! t)) (zip ?lp y)) / real (length y)"
    by (auto simp: nll_loss_def split: if_splits)
  have "0 \<le> sum_list (map (\<lambda>(lp, t). - (lp ! t)) (zip ?lp y))"
  proof (rule sum_list_nonneg)
    fix v assume "v \<in> set (map (\<lambda>(lp, t). - (lp ! t)) (zip ?lp y))"
    then obtain lp t where in_zip: "(lp, t) \<in> set (zip ?lp y)" and v: "v = - (lp ! t)" by auto
    from in_zip have "lp \<in> set ?lp" by (rule set_zip_leftD)
    then obtain row where lp: "lp = log_softmax row" by auto
    from ok in_zip have "t < length lp" by (auto simp: list_all_iff)
    with lp have "log_softmax row ! t \<le> 0" by (intro log_softmax_nonpos) simp
    with v lp show "0 \<le> v" by simp
  qed
  with l show ?thesis by simp
qed

lemma collate_labels: "collate b = Inr (X, y) \<Longrightarrow> y = map snd b"
  by (auto simp: collate_def split: list.splits if_splits)

lemma eval_batch_bounds:
  assumes "eval_batch loss_fn m b = Inr (l, c)"
  shows "c \<le> length b"
proof -
  from assms obtain X y am where "collate b = Inr (X, y)" "c = count_equal am y"
    by (auto simp: eval_batch_def bind_err_def split: sum.splits prod.splits)
  then show ?thesis using count_equal_le [of am y] by (auto dest: collate_labels)
qed

lemma eval_batch_loss_nonneg:
  assumes "eval_batch CrossEntropyLoss m b = Inr (l, c)"
  shows "0 \<le> l"
proof -
  from assms obtain pred y where "CrossEntropyLoss pred y = Inr l"
    by (auto simp: eval_batch_def bind_err_def split: sum.splits prod.splits)
  then show ?thesis by (rule CrossEntropyLoss_nonneg)
qed

lemma all_ok_results:
  "all_ok (map f bs) = Inr rs \<Longrightarrow> list_all2 (\<lambda>b r. f b = Inr r) bs rs"
proof (induction bs arbitrary: rs)
  case Nil
  then show ?case by simp
next
  case (Cons b bs)
  then show ?case
    by (auto simp: bind_err_def split: sum.splits)
qed

lemma all_ok_total:
  "\<forall>b \<in> set bs. \<exists>r. f b = Inr r \<Longrightarrow> \<exists>rs. all_ok (map f bs) = Inr rs"
proof (induction bs)
  case Nil
  then show ?case by simp
next
  case (Cons b bs)
  then obtain r rs where "f b = Inr r" "all_ok (map f bs) = Inr rs" by auto
  then show ?case by simp
qed

lemma sum_counts_le:
  "list_all2 (\<lambda>b r. eval_batch loss_fn m b = Inr r) bs rs \<Longrightarrow>
     sum_list (map snd rs) \<le> sum_list (map length bs)"
proof (induction rule: list_all2_induct)
  case Nil
  then show ?case by simp
next
  case (Cons b bs r rs)
  obtain l c where "r = (l, c)" by (cases r)
  with Cons show ?case using eval_batch_bounds [of loss_fn m b l c] by simp
qed

lemma sum_losses_nonneg:
  "list_all2 (\<lambda>b r. eval_batch CrossEntropyLoss m b = Inr r) bs rs \<Longrightarrow>
     0 \<le> sum_list (map fst rs)"
proof (induction rule: list_all2_induct)
  case Nil
  then show ?case by simp
next
  case (Cons b bs r rs)
  obtain l c where "r = (l, c)" by (cases r)
  with Cons show ?case using eval_batch_loss_nonneg [of m b l c] by simp
qed

lemma sum_length_chunks_le: "sum_list (map length (chunks n xs)) \<le> length xs"
  by (cases "n = 0") (simp_all add: sum_length_chunks)

lemma test_loop_InrE:
  assumes "test_loop dataloader loss_fn s = Inr s'"
  obtains rs where
    "all_ok (map (eval_batch loss_fn (model s))
        (chunks (batch_size dataloader) (dataset dataloader))) = Inr rs"
    "dataset dataloader \<noteq> []"
    "s' = s\<lparr>stdout := stdout s @
            [TestError (real (sum_list (map snd rs)) / real (length (dataset dataloader)))
                       (sum_list (map fst rs) / real (length (dataset dataloader)))]\<rparr>"
  using assms unfolding test_loop_eq
  by (auto simp: bind_err_def split: sum.splits if_splits)

text \<open>
  C5. The evaluation loop adds up the loss of every batch and the number of samples
  whose label equals the index of the maximal score, and prints the first sum divided by
  the number of samples of the dataset as average loss and the second sum divided by the
  number of samples as accuracy; on an empty dataset the division raises. \<open>count_equal\<close>
  counts the positions where prediction and label agree, and \<open>argmax\<close> is an index of a
  maximal score.
\<close>

theorem test_loop_reports_averages:
  "test_loop dataloader loss_fn s =
     bind_err (all_ok (map (eval_batch loss_fn (model s))
                 (chunks (batch_size dataloader) (dataset dataloader))))
       (\<lambda>rs. if length (dataset dataloader) = 0 then Inl ZeroDivisionError
             else Inr (s\<lparr>stdout := stdout s @
                    [TestError (real (sum_list (map snd rs)) / real (length (dataset dataloader)))
                               (sum_list (map fst rs) / real (length (dataset dataloader)))]\<rparr>))
   \<and> (\<forall>am y. count_equal am y = card {r. r < length am \<and> r < length y \<and> am ! r = y ! r})
   \<and> (\<forall>scores. scores \<noteq> [] \<longrightarrow>
         argmax scores < length scores \<and> (\<forall>j<length scores. scores ! j \<le> scores ! argmax scores))"
  using test_loop_eq count_equal_card argmax_is_max by blast

text \<open>
  Over the real numbers the reported accuracy lies between 0 and 1 and the reported
  average loss is at least 0. Over floating-point values the loss can be NaN: see section
  ``Properties of the floating-point embedding''.
\<close>

lemma test_loop_ranges_exact:
  assumes "test_loop dataloader CrossEntropyLoss s = Inr s'"
  shows "\<exists>accuracy avg_loss. stdout s' = stdout s @ [TestError accuracy avg_loss] \<and>
           0 \<le> accuracy \<and> accuracy \<le> 1 \<and> 0 \<le> avg_loss"
proof -
  let ?bs = "chunks (batch_size dataloader) (dataset dataloader)"
  let ?n = "length (dataset dataloader)"
  from assms obtain rs where
    ok: "all_ok (map (eval_batch CrossEntropyLoss (model s)) ?bs) = Inr rs"
    and ne: "dataset dataloader \<noteq> []"
    and s': "s' = s\<lparr>stdout := stdout s @
            [TestError (real (sum_list (map snd rs)) / real ?n) (sum_list (map fst rs) / real ?n)]\<rparr>"
    by (rule test_loop_InrE)
  from ok have all2: "list_all2 (\<lambda>b r. eval_batch CrossEntropyLoss (model s) b = Inr r) ?bs rs"
    by (rule all_ok_results)
  have "sum_list (map snd rs) \<le> sum_list (map length ?bs)"
    using all2 by (rule sum_counts_le)
  also have "\<dots> \<le> ?n" by (rule sum_length_chunks_le)
  finally have c: "real (sum_list (map snd rs)) \<le> real ?n" by simp
  from ne have n: "0 < real ?n" by simp
  have acc: "0 \<le> real (sum_list (map snd rs)) / real ?n" "real (sum_list (map snd rs)) / real ?n \<le> 1"
    using c n by simp_all
  have "0 \<le> sum_list (map fst rs)" using all2 by (rule sum_losses_nonneg)
  then have "0 \<le> sum_list (map fst rs) / real ?n" using n by simp
  with acc s' show ?thesis by simp
qed

text \<open>
  C8. A call of the evaluation loop leaves the model as it was, so every weight and bias
  of every linear stage is unchanged; the gradients are untouched, no forward pass is
  recorded for differentiation, whatever the gradient mode was at the call, and the
  gradient mode is restored.
\<close>

theorem test_loop_read_only:
  assumes "test_loop dataloader loss_fn s = Inr s'"
  shows "model s' = model s \<and> state_dict (model s') = state_dict (model s) \<and>
         grad s' = grad s \<and> graphs s' = graphs s \<and> grad_enabled s' = grad_enabled s"
proof -
  from assms obtain rs where
    "s' = s\<lparr>stdout := stdout s @
            [TestError (real (sum_list (map snd rs)) / real (length (dataset dataloader)))
                       (sum_list (map fst rs) / real (length (dataset dataloader)))]\<rparr>"
    by (rule test_loop_InrE)
  then show ?thesis by simp
qed

lemma collate_wf:
  assumes "b \<noteq> []" "list_all (\<lambda>(x, t). shape x = [1, 28, 28] \<and> wf_tensor x \<and> t < 10) b"
  obtains X where "collate b = Inr (X, map snd b)" "shape X = [length b, 1, 28, 28]"
proof -
  from assms(1) obtain x0 t0 rest where b: "b = (x0, t0) # rest" by (cases b) auto
  from assms(2) have sh: "\<forall>(x, t) \<in> set b. shape x = [1, 28, 28]"
    by (auto simp: list_all_iff)
  with b have x0: "shape x0 = [1, 28, 28]" by auto
  from sh x0 have "list_all (\<lambda>(x, _). shape x = shape x0) b"
    by (auto simp: list_all_iff)
  then have "collate b = Inr (\<lparr>shape = length b # shape x0, data = concat (map (\<lambda>(x, _). data x) b)\<rparr>, map snd b)"
    using b by (simp add: collate_def)
  with x0 that show thesis by simp
qed

lemma nn_Flatten_4d:
  "shape X = [B, c, h, w] \<Longrightarrow> nn_Flatten X = Inr (X\<lparr>shape := [B, c * (h * w)]\<rparr>)"
  by (simp add: nn_Flatten_def)

lemma forward_batch:
  assumes "wf_model m" "shape X = [B, 1, 28, 28]"
  obtains pred where "forward m X = Inr pred" "shape pred = [B, 10]" "wf_tensor pred"
proof -
  have f: "nn_Flatten X = Inr (X\<lparr>shape := [B, 784]\<rparr>)"
    using nn_Flatten_4d [OF assms(2)] by simp
  have "shape (X\<lparr>shape := [B, 784]\<rparr>) = [B, 784]" by simp
  from forward_wf_model [OF assms(1) f this] that show thesis by blast
qed

lemma CrossEntropyLoss_total:
  assumes pred: "shape pred = [B, C]" "wf_tensor pred"
    and y: "length y = B" "y \<noteq> []" "\<forall>t \<in> set y. t < C"
  shows "\<exists>l. CrossEntropyLoss pred y = Inr l"
proof -
  let ?lp = "map log_softmax (rows B C (data pred))"
  from pred have len: "B * C \<le> length (data pred)" by (simp add: wf_tensor_def)
  have "list_all (\<lambda>(lp, t). t < length lp) (zip ?lp y)"
    unfolding list_all_iff
  proof (intro ballI)
    fix p assume p: "p \<in> set (zip ?lp y)"
    obtain lp t where pt: "p = (lp, t)" by (cases p)
    from p pt have "lp \<in> set ?lp" "t \<in> set y"
      by (auto dest: set_zip_leftD set_zip_rightD)
    then obtain row where "row \<in> set (rows B C (data pred))" "lp = log_softmax row" by auto
    with len have "length lp = C" by (simp add: rows_row_length)
    with \<open>t \<in> set y\<close> y(3) pt show "case p of (lp, t) \<Rightarrow> t < length lp" by simp
  qed
  then show ?thesis using pred(1) y(1,2) by (simp add: CrossEntropyLoss_def nll_loss_def)
qed

lemma eval_batch_total:
  assumes "wf_model m" "b \<noteq> []"
    and "list_all (\<lambda>(x, t). shape x = [1, 28, 28] \<and> wf_tensor x \<and> t < 10) b"
  shows "\<exists>r. eval_batch CrossEntropyLoss m b = Inr r"
proof -
  from assms(2,3) obtain X where X: "collate b = Inr (X, map snd b)" "shape X = [length b, 1, 28, 28]"
    by (rule collate_wf)
  from assms(1) X(2) obtain pred where
    pred: "forward m X = Inr pred" "shape pred = [length b, 10]" "wf_tensor pred"
    by (rule forward_batch)
  have "\<forall>t \<in> set (map snd b). t < 10"
    using assms(3) by (auto simp: list_all_iff)
  with pred assms(2) obtain l where l: "CrossEntropyLoss pred (map snd b) = Inr l"
    using CrossEntropyLoss_total [of pred "length b" 10 "map snd b"] by auto
  have "argmax1 pred = Inr (map argmax (rows (length b) 10 (data pred)))"
    using pred(2) by (simp add: argmax1_def)
  with X pred l show ?thesis by (simp add: eval_batch_def)
qed

lemma wf_dataset_chunk:
  assumes "wf_dataset ds" "b \<in> set (chunks n ds)"
  shows "b \<noteq> [] \<and> list_all (\<lambda>(x, t). shape x = [1, 28, 28] \<and> wf_tensor x \<and> t < 10) b"
proof -
  from assms(2) have "b \<noteq> []" "set b \<subseteq> set ds" by (auto dest: chunks_nonempty)
  with assms(1) show ?thesis by (auto simp: wf_dataset_def list_all_iff)
qed

lemma all_eval_batches_total:
  assumes "wf_model m" "wf_dataset ds"
  shows "\<exists>rs. all_ok (map (eval_batch CrossEntropyLoss m) (chunks n ds)) = Inr rs"
proof (rule all_ok_total, intro ballI)
  fix b assume "b \<in> set (chunks n ds)"
  with assms(2) have "b \<noteq> [] \<and> list_all (\<lambda>(x, t). shape x = [1, 28, 28] \<and> wf_tensor x \<and> t < 10) b"
    by (rule wf_dataset_chunk)
  with assms(1) show "\<exists>r. eval_batch CrossEntropyLoss m b = Inr r"
    by (blast intro: eval_batch_total)
qed

lemma test_loop_total:
  assumes "wf_model (model s)" "wf_dataset (dataset dataloader)" "dataset dataloader \<noteq> []"
  shows "\<exists>s'. test_loop dataloader CrossEntropyLoss s = Inr s'"
proof -
  from all_eval_batches_total [OF assms(1,2), of "batch_size dataloader"]
  obtain rs where "all_ok (map (eval_batch CrossEntropyLoss (model s))
      (chunks (batch_size dataloader) (dataset dataloader))) = Inr rs" by blast
  with assms(3) show ?thesis unfolding test_loop_eq by simp
qed

lemma test_loop_empty: "dataset dataloader = [] \<Longrightarrow> test_loop dataloader loss_fn s = Inl ZeroDivisionError"
  unfolding test_loop_eq by simp

lemma tiny_eval_batches:
  "all_ok (map (eval_batch CrossEntropyLoss \<lparr>linear_relu_stack = [ReLU], training = False\<rparr>)
     (chunks 64 [(\<lparr>shape = [1, 2], data = [3, 1]\<rparr>, 0), (\<lparr>shape = [1, 2], data = [-1, -2]\<rparr>, 1)]))
   = Inr [(((ln (exp 3 + exp 1) - 3) + ln 2) / 2, 1)]"
  by (simp add: chunks.simps eval_batch_def collate_def forward_def nn_Flatten_def nn_ReLU_def
      relu_def CrossEntropyLoss_def nll_loss_def log_softmax_def argmax1_def count_equal_def
      numeral_2_eq_2)

theorem test_loop_reports_averages_witness:
  "test_loop \<lparr>dataset = [(\<lparr>shape = [1, 2], data = [3, 1]\<rparr>, 0), (\<lparr>shape = [1, 2], data = [-1, -2]\<rparr>, 1)],
              batch_size = 64\<rparr> CrossEntropyLoss
     \<lparr>model = \<lparr>linear_relu_stack = [ReLU], training = False\<rparr>, grad = [None],
      grad_enabled = True, graphs = 0, stdout = []\<rparr>
   = Inr \<lparr>model = \<lparr>linear_relu_stack = [ReLU], training = False\<rparr>, grad = [None],
      grad_enabled = True, graphs = 0,
      stdout = [TestError (1 / 2) (((ln (exp 3 + exp 1) - 3) + ln 2) / 2 / 2)]\<rparr>
   \<and> argmax [3, 1] = 0 \<and> argmax [0, 0] = 0 \<and> count_equal [0, 0] [0, 1] = 1"
proof -
  let ?dl = "\<lparr>dataset = [(\<lparr>shape = [1, 2], data = [3, 1]\<rparr>, 0), (\<lparr>shape = [1, 2], data = [-1, -2]\<rparr>, 1)],
              batch_size = 64\<rparr>"
  let ?s = "\<lparr>model = \<lparr>linear_relu_stack = [ReLU], training = False\<rparr>, grad = [None],
      grad_enabled = True, graphs = 0, stdout = []\<rparr>"
  from test_loop_reports_averages [of ?dl CrossEntropyLoss ?s]
  have "test_loop ?dl CrossEntropyLoss ?s =
     bind_err (all_ok (map (eval_batch CrossEntropyLoss (model ?s))
                 (chunks (batch_size ?dl) (dataset ?dl))))
       (\<lambda>rs. if length (dataset ?dl) = 0 then Inl ZeroDivisionError
             else Inr (?s\<lparr>stdout := stdout ?s @
                    [TestError (real (sum_list (map snd rs)) / real (length (dataset ?dl)))
                               (sum_list (map fst rs) / real (length (dataset ?dl)))]\<rparr>))"
    by (rule conjunct1)
  note main = this
  have e: "all_ok (map (eval_batch CrossEntropyLoss (model ?s))
                 (chunks (batch_size ?dl) (dataset ?dl)))
      = Inr [(((ln (exp 3 + exp 1) - 3) + ln 2) / 2, 1)]"
    using tiny_eval_batches by simp
  have "test_loop ?dl CrossEntropyLoss ?s
      = Inr (?s\<lparr>stdout := [TestError (1 / 2) (((ln (exp 3 + exp 1) - 3) + ln 2) / 2 / 2)]\<rparr>)"
    unfolding main e by simp
  moreover have "argmax [3, 1] = 0" "argmax [0, 0] = 0" "count_equal [0, 0] [0, 1] = 1"
    by (simp_all add: count_equal_def)
  ultimately show ?thesis by simp
qed

lemma wf_dataset_example:
  "wf_dataset [(\<lparr>shape = [1, 28, 28], data = replicate 784 0\<rparr>, 9),
               (\<lparr>shape = [1, 28, 28], data = replicate 784 1\<rparr>, 0)]"
  by (simp add: wf_dataset_def wf_tensor_def)

lemma wf_model_init_state: "wf_model (model (init_state rnd))"
  by (simp add: init_state_def wf_model_NeuralNetwork)

theorem test_loop_read_only_witness:
  "\<exists>s'. test_loop \<lparr>dataset = [(\<lparr>shape = [1, 28, 28], data = replicate 784 1\<rparr>, 3)], batch_size = 64\<rparr>
          CrossEntropyLoss (init_state (\<lambda>k i. 1)) = Inr s' \<and>
     model s' = NeuralNetwork (\<lambda>k i. 1) \<and>
     state_dict (model s') = state_dict (NeuralNetwork (\<lambda>k i. 1)) \<and>
     grad s' = [None, None, None, None, None, None] \<and> graphs s' = 0 \<and> grad_enabled s'"
proof -
  let ?dl = "\<lparr>dataset = [(\<lparr>shape = [1, 28, 28], data = replicate 784 1\<rparr>, 3)], batch_size = 64\<rparr>"
  have "wf_dataset (dataset ?dl)" "dataset ?dl \<noteq> []"
    by (simp_all add: wf_dataset_def wf_tensor_def)
  with wf_model_init_state [of "\<lambda>k i. 1"]
  obtain s' where s': "test_loop ?dl CrossEntropyLoss (init_state (\<lambda>k i. 1)) = Inr s'"
    using test_loop_total by blast
  from test_loop_read_only [OF s'] s' show ?thesis
    by (auto simp: init_state_def)
qed

section \<open>Properties of the training loop\<close>

lemma tensor_add_zeros:
  assumes "shape a = shape g" "length (data a) = length (data g)"
  shows "tensor_add (zeros_like a) g = g"
proof -
  have "map2 (+) (map (\<lambda>_. 0) (data a)) (data g) = data g"
    using assms(2) by (intro nth_equalityI) simp_all
  with assms(1) show ?thesis by (simp add: tensor_add_def zeros_like_def)
qed

lemma accumulate_zeroed:
  assumes "g0 = None \<or> grad_like_stage g0 st" "grad_like_stage g st"
  shows "accumulate (map_option (\<lambda>(gW, gb). (zeros_like gW, zeros_like gb)) g0) g = g"
proof (cases g0)
  case None
  then show ?thesis by simp
next
  case (Some a)
  obtain aW ab where a: "a = (aW, ab)" by (cases a)
  with Some assms(1) obtain W b where st: "st = Linear W b"
    and sa: "shape aW = shape W" "shape ab = shape b"
      "length (data aW) = length (data W)" "length (data ab) = length (data b)"
    by (cases st) auto
  with assms(2) obtain gW gb where g: "g = Some (gW, gb)"
    and sg: "shape gW = shape W" "shape gb = shape b"
      "length (data gW) = length (data W)" "length (data gb) = length (data b)"
    by (cases g) auto
  show ?thesis
    using Some a g sa sg by (simp add: tensor_add_zeros)
qed

lemma accumulate_zeroed_list:
  assumes "list_all2 (\<lambda>g st. g = None \<or> grad_like_stage g st) g0s ss"
    and "list_all2 grad_like_stage gs ss"
  shows "map2 accumulate (map (map_option (\<lambda>(gW, gb). (zeros_like gW, zeros_like gb))) g0s) gs = gs"
  using assms
proof (induction ss arbitrary: g0s gs rule: list.induct)
  case Nil
  then show ?case by simp
next
  case (Cons st ss)
  from Cons.prems(1) obtain g0 g0s' where g0: "g0s = g0 # g0s'"
    "g0 = None \<or> grad_like_stage g0 st"
    "list_all2 (\<lambda>g st. g = None \<or> grad_like_stage g st) g0s' ss"
    by (auto simp: list_all2_Cons2)
  from Cons.prems(2) obtain g gs' where g: "gs = g # gs'" "grad_like_stage g st"
    "list_all2 grad_like_stage gs' ss"
    by (auto simp: list_all2_Cons2)
  from Cons.IH [OF g0(3) g(3)] accumulate_zeroed [OF g0(2) g(2)] g0(1) g(1)
  show ?case by simp
qed

lemma stage_shape_sgd_stage [simp]: "stage_shape (sgd_stage rate st g) = stage_shape st"
  by (cases "(rate, st, g)" rule: sgd_stage.cases) (simp_all add: sgd_tensor_def)

lemma wf_stage_sgd_stage:
  "wf_stage st \<Longrightarrow> grad_like_stage g st \<Longrightarrow> wf_stage (sgd_stage rate st g)"
  by (cases "(rate, st, g)" rule: sgd_stage.cases) (simp_all add: sgd_tensor_def wf_tensor_def)

lemma grad_like_stage_sgd_stage:
  "grad_like_stage g st \<Longrightarrow> grad_like_stage h st \<Longrightarrow> grad_like_stage h (sgd_stage rate st g)"
  by (cases "(rate, st, g)" rule: sgd_stage.cases; cases h) (auto simp: sgd_tensor_def)

lemma sgd_update_props:
  assumes "list_all2 grad_like_stage g ss"
  shows "map stage_shape (sgd_update rate ss g) = map stage_shape ss"
    and "list_all wf_stage ss \<Longrightarrow> list_all wf_stage (sgd_update rate ss g)"
    and "list_all2 grad_like_stage g (sgd_update rate ss g)"
  using assms
proof (induction g ss rule: list_all2_induct)
  case Nil
  {
    case 1 show ?case by (simp add: sgd_update_def)
  next
    case 2 show ?case by (simp add: sgd_update_def)
  next
    case 3 show ?case by (simp add: sgd_update_def)
  }
next
  case (Cons x xs y ys)
  {
    case 1
    with Cons show ?case by (simp add: sgd_update_def)
  next
    case 2
    with Cons show ?case by (simp add: sgd_update_def wf_stage_sgd_stage)
  next
    case 3
    with Cons show ?case by (simp add: sgd_update_def grad_like_stage_sgd_stage)
  }
qed


lemma is_gradient_like: "is_gradient loss ss g \<Longrightarrow> list_all2 grad_like_stage g ss"
  by (simp add: is_gradient_def grad_like_def)

lemma recorded_loss_current:
  "recorded_loss loss_fn self X y (linear_relu_stack self)
     = bind_err (forward self X) (\<lambda>pred. loss_fn pred y)"
  by (simp add: recorded_loss_def)

lemma train_batch_step:
  assumes inv: "train_inv s"
    and b: "b \<noteq> []" "list_all (\<lambda>(x, t). shape x = [1, 28, 28] \<and> wf_tensor x \<and> t < 10) b"
    and ag: "\<forall>loss ss. is_gradient loss ss (autograd loss ss)"
  shows "\<exists>s4. (\<forall>bs. train_batches autograd CrossEntropyLoss optimizer n k (b # bs) s
                 = train_batches autograd CrossEntropyLoss optimizer n (Suc k) bs s4) \<and>
           train_inv s4 \<and>
           model s4 = train_step autograd CrossEntropyLoss (lr optimizer) (model s) b \<and>
           graphs s4 = graphs s + 1"
proof -
  let ?ss = "linear_relu_stack (model s)"
  from inv have wf: "wf_model (model s)" and en: "grad_enabled s" and gok: "grad_ok s"
    by (simp_all add: train_inv_def)
  from b obtain X where X: "collate b = Inr (X, map snd b)" "shape X = [length b, 1, 28, 28]"
    by (rule collate_wf)
  let ?y = "map snd b"
  let ?L = "recorded_loss CrossEntropyLoss (model s) X ?y"
  let ?g = "autograd ?L ?ss"
  from wf X(2) obtain pred where
    pred: "forward (model s) X = Inr pred" "shape pred = [length b, 10]" "wf_tensor pred"
    by (rule forward_batch)
  let ?s1 = "s\<lparr>graphs := graphs s + 1\<rparr>"
  have call: "call_model X s = Inr (pred, ?s1)"
    using pred(1) en by (simp add: call_model_def)
  have "\<forall>t \<in> set ?y. t < 10"
    using b(2) by (auto simp: list_all_iff)
  with pred b(1) obtain l where l: "CrossEntropyLoss pred ?y = Inr l"
    using CrossEntropyLoss_total [of pred "length b" 10 ?y] by auto
  have gl: "list_all2 grad_like_stage ?g ?ss"
    using ag by (blast intro: is_gradient_like)
  have acc: "map2 accumulate (grad (zero_grad ?s1)) ?g = ?g"
    using gok gl unfolding zero_grad_def grad_ok_def
    by (simp add: accumulate_zeroed_list)
  let ?s2 = "(zero_grad ?s1)\<lparr>grad := ?g\<rparr>"
  have bk: "backward autograd ?L (zero_grad ?s1) = Inr ?s2"
    using en acc by (simp add: backward_def zero_grad_def)
  let ?s3 = "step optimizer ?s2"
  let ?s4 = "if k mod 100 = 0
          then ?s3\<lparr>stdout := stdout ?s3 @ [TrainLoss l (k * length b) n]\<rparr>
          else ?s3"
  have stack3: "linear_relu_stack (model ?s3) = sgd_update (lr optimizer) ?ss ?g"
    by (simp add: step_def sgd_update_def zero_grad_def)
  have model3: "model ?s3 = (model s)\<lparr>linear_relu_stack := sgd_update (lr optimizer) ?ss ?g\<rparr>"
    by (simp add: step_def sgd_update_def zero_grad_def)
  have run: "\<forall>bs. train_batches autograd CrossEntropyLoss optimizer n k (b # bs) s
                 = train_batches autograd CrossEntropyLoss optimizer n (Suc k) bs ?s4"
    using X(1) call l bk by (simp add: Let_def)
  have ts: "train_step autograd CrossEntropyLoss (lr optimizer) (model s) b
      = (model s)\<lparr>linear_relu_stack := sgd_update (lr optimizer) ?ss ?g\<rparr>"
    using X(1) by (simp add: train_step_def)
  have wf3: "wf_model (model ?s3)"
    using wf sgd_update_props(1,2) [OF gl, of "lr optimizer"] stack3
    by (simp add: wf_model_def)
  have "list_all2 grad_like_stage ?g (sgd_update (lr optimizer) ?ss ?g)"
    using gl by (rule sgd_update_props(3))
  then have "list_all2 (\<lambda>g st. g = None \<or> grad_like_stage g st) ?g (sgd_update (lr optimizer) ?ss ?g)"
    by (rule list_all2_mono) simp
  then have gok3: "grad_ok ?s3"
    using stack3 by (simp add: grad_ok_def step_def zero_grad_def)
  have en3: "grad_enabled ?s3" using en by (simp add: step_def zero_grad_def)
  have inv4: "train_inv ?s4"
    using wf3 gok3 en3 by (simp add: train_inv_def grad_ok_def)
  have st4: "model ?s4 = train_step autograd CrossEntropyLoss (lr optimizer) (model s) b"
    using model3 ts by simp
  have gr4: "graphs ?s4 = graphs s + 1"
    by (simp add: step_def zero_grad_def)
  from run inv4 st4 gr4 show ?thesis by blast
qed

lemma train_batches_correct:
  assumes "train_inv s"
    and "\<forall>b \<in> set bs. b \<noteq> [] \<and> list_all (\<lambda>(x, t). shape x = [1, 28, 28] \<and> wf_tensor x \<and> t < 10) b"
    and ag: "\<forall>loss ss. is_gradient loss ss (autograd loss ss)"
  shows "\<exists>s'. train_batches autograd CrossEntropyLoss optimizer n k bs s = Inr s' \<and>
           train_inv s' \<and>
           model s' = train_epoch autograd CrossEntropyLoss (lr optimizer) bs (model s) \<and>
           graphs s' = graphs s + length bs"
  using assms(1,2)
proof (induction bs arbitrary: s k rule: list.induct)
  case Nil
  then show ?case by (simp add: train_epoch_def)
next
  case (Cons b bs)
  from Cons.prems(2) have b: "b \<noteq> []"
    "list_all (\<lambda>(x, t). shape x = [1, 28, 28] \<and> wf_tensor x \<and> t < 10) b"
    and rest: "\<forall>b \<in> set bs. b \<noteq> [] \<and> list_all (\<lambda>(x, t). shape x = [1, 28, 28] \<and> wf_tensor x \<and> t < 10) b"
    by simp_all
  from train_batch_step [where autograd = autograd and optimizer = optimizer and n = n and k = k,
      OF Cons.prems(1) b ag]
  obtain s4 where
    run: "train_batches autograd CrossEntropyLoss optimizer n k (b # bs) s
            = train_batches autograd CrossEntropyLoss optimizer n (Suc k) bs s4"
    and inv4: "train_inv s4"
    and st4: "model s4 = train_step autograd CrossEntropyLoss (lr optimizer) (model s) b"
    and gr4: "graphs s4 = graphs s + 1"
    by blast
  from Cons.IH [OF inv4 rest, where k = "Suc k"]
  obtain s' where s': "train_batches autograd CrossEntropyLoss optimizer n (Suc k) bs s4 = Inr s'"
    "train_inv s'"
    "model s' = train_epoch autograd CrossEntropyLoss (lr optimizer) bs (model s4)"
    "graphs s' = graphs s4 + length bs"
    by blast
  with run st4 gr4 show ?case by (simp add: train_epoch_def)
qed

lemma train_loop_correct:
  assumes "train_inv s" "wf_dataset (dataset dataloader)"
    and ag: "\<forall>loss ss. is_gradient loss ss (autograd loss ss)"
  shows "\<exists>s'. train_loop autograd dataloader CrossEntropyLoss optimizer s = Inr s' \<and>
           train_inv s' \<and>
           model s' = train_epoch autograd CrossEntropyLoss (lr optimizer)
                 (chunks (batch_size dataloader) (dataset dataloader)) (model s) \<and>
           graphs s' = graphs s + length (chunks (batch_size dataloader) (dataset dataloader))"
proof -
  have "\<forall>b \<in> set (chunks (batch_size dataloader) (dataset dataloader)).
      b \<noteq> [] \<and> list_all (\<lambda>(x, t). shape x = [1, 28, 28] \<and> wf_tensor x \<and> t < 10) b"
  proof (intro ballI)
    fix b assume "b \<in> set (chunks (batch_size dataloader) (dataset dataloader))"
    with assms(2) show "b \<noteq> [] \<and> list_all (\<lambda>(x, t). shape x = [1, 28, 28] \<and> wf_tensor x \<and> t < 10) b"
      by (rule wf_dataset_chunk)
  qed
  from train_batches_correct [where autograd = autograd, OF assms(1) this ag]
  show ?thesis unfolding train_loop_def by blast
qed

lemma train_inv_stdout [simp]: "train_inv (s\<lparr>stdout := out\<rparr>) = train_inv s"
  by (simp add: train_inv_def grad_ok_def)

lemma epoch_loop_correct:
  assumes "train_inv s" "wf_dataset (dataset train_dataloader)"
    and "wf_dataset (dataset test_dataloader)" "dataset test_dataloader \<noteq> []"
    and ag: "\<forall>loss ss. is_gradient loss ss (autograd loss ss)"
  shows "\<exists>s'. epoch_loop autograd train_dataloader test_dataloader CrossEntropyLoss optimizer n t s
             = Inr s' \<and>
           train_inv s' \<and>
           model s'
             = (train_epoch autograd CrossEntropyLoss (lr optimizer)
                  (chunks (batch_size train_dataloader) (dataset train_dataloader)) ^^ n) (model s) \<and>
           graphs s' = graphs s
             + n * length (chunks (batch_size train_dataloader) (dataset train_dataloader))"
  using assms(1)
proof (induction n arbitrary: s t)
  case 0
  then show ?case by simp
next
  case (Suc n)
  let ?bs = "chunks (batch_size train_dataloader) (dataset train_dataloader)"
  let ?f = "train_epoch autograd CrossEntropyLoss (lr optimizer) ?bs"
  let ?s0 = "s\<lparr>stdout := stdout s @ [Epoch (t + 1)]\<rparr>"
  from Suc.prems have inv0: "train_inv ?s0" by simp
  from train_loop_correct [where autograd = autograd and optimizer = optimizer, OF inv0 assms(2) ag]
  obtain s1 where s1: "train_loop autograd train_dataloader CrossEntropyLoss optimizer ?s0 = Inr s1"
    "train_inv s1"
    "model s1 = ?f (model s)"
    "graphs s1 = graphs s + length ?bs"
    by auto
  from s1(2) have "wf_model (model s1)" by (simp add: train_inv_def)
  from test_loop_total [OF this assms(3,4)]
  obtain s2 where s2: "test_loop test_dataloader CrossEntropyLoss s1 = Inr s2" by blast
  then obtain line where s2_eq: "s2 = s1\<lparr>stdout := stdout s1 @ [line]\<rparr>"
    by (rule test_loop_InrE)
  with s1(2) have inv2: "train_inv s2" by simp
  from Suc.IH [OF inv2, of "Suc t"]
  obtain s' where s': "epoch_loop autograd train_dataloader test_dataloader CrossEntropyLoss
                         optimizer n (Suc t) s2 = Inr s'"
    "train_inv s'"
    "model s' = (?f ^^ n) (model s2)"
    "graphs s' = graphs s2 + n * length ?bs"
    by blast
  have run: "epoch_loop autograd train_dataloader test_dataloader CrossEntropyLoss optimizer (Suc n) t s
      = Inr s'"
    using s1(1) s2 s'(1) by simp
  have st: "model s' = (?f ^^ Suc n) (model s)"
    using s'(3) s1(3) s2_eq by (simp add: funpow_swap1)
  have "graphs s' = graphs s + Suc n * length ?bs"
    using s'(4) s1(4) s2_eq by simp
  then show ?case using run s'(2) st by blast
qed

lemma sgd_tensor_nth:
  assumes "length (data g) = length (data p)" "i < length (data p)"
  shows "data (sgd_tensor rate p g) ! i = data p ! i - rate * data g ! i"
  using assms by (simp add: sgd_tensor_def)

lemma sgd_tensor_shape [simp]: "shape (sgd_tensor rate p g) = shape p"
  by (simp add: sgd_tensor_def)

lemma train_inv_init_state: "train_inv (init_state rnd)"
proof -
  have "grad_ok (init_state rnd)"
    by (simp add: grad_ok_def init_state_def NeuralNetwork_def)
  then show ?thesis
    using wf_model_init_state [of rnd] by (simp add: train_inv_def init_state_def)
qed

lemma partial_eq:
  assumes "(f has_real_derivative D) (at x)"
  shows "partial f x = D"
proof -
  have "(THE D'. (f has_real_derivative D') (at x)) = D"
    using assms by (intro the_equality) (auto intro: DERIV_unique)
  with assms show ?thesis unfolding partial_def by auto
qed

lemma length_gradient_stages [simp]: "length (gradient_stages loss ss k rest) = length rest"
  by (induction loss ss k rest rule: gradient_stages.induct) simp_all

lemma gradient_stages_nth:
  "j < length rest \<Longrightarrow>
     gradient_stages loss ss k rest ! j =
       (case rest ! j of
          ReLU \<Rightarrow> None
        | Linear W b \<Rightarrow>
            Some (W\<lparr>data := map (\<lambda>i. partial (\<lambda>v. loss_at loss (set_weight ss (k + j) i v)) (data W ! i))
                         [0..<length (data W)]\<rparr>,
                  b\<lparr>data := map (\<lambda>i. partial (\<lambda>v. loss_at loss (set_bias ss (k + j) i v)) (data b ! i))
                         [0..<length (data b)]\<rparr>))"
proof (induction loss ss k rest arbitrary: j rule: gradient_stages.induct)
  case (1 loss ss k)
  then show ?case by simp
next
  case (2 loss ss k rest)
  show ?case
  proof (cases j)
    case 0
    then show ?thesis by simp
  next
    case (Suc j')
    with "2.prems" have "j' < length rest" by simp
    from "2.IH" [OF this] show ?thesis unfolding Suc by (cases "rest ! j'") simp_all
  qed
next
  case (3 loss ss k W b rest)
  show ?case
  proof (cases j)
    case 0
    then show ?thesis by simp
  next
    case (Suc j')
    with "3.prems" have "j' < length rest" by simp
    from "3.IH" [OF this] show ?thesis unfolding Suc by (cases "rest ! j'") simp_all
  qed
qed

lemma gradient_nth_Linear:
  assumes "k < length ss" "ss ! k = Linear W b"
  shows "gradient loss ss ! k =
     Some (W\<lparr>data := map (\<lambda>i. partial (\<lambda>v. loss_at loss (set_weight ss k i v)) (data W ! i))
                         [0..<length (data W)]\<rparr>,
           b\<lparr>data := map (\<lambda>i. partial (\<lambda>v. loss_at loss (set_bias ss k i v)) (data b ! i))
                         [0..<length (data b)]\<rparr>)"
  using gradient_stages_nth [OF assms(1), of loss ss 0] assms(2)
  unfolding gradient_def by simp

lemma grad_like_gradient_stages: "list_all2 grad_like_stage (gradient_stages loss ss k rest) rest"
  by (induction loss ss k rest rule: gradient_stages.induct) simp_all

lemma is_gradient_gradient: "is_gradient loss ss (gradient loss ss)"
  unfolding is_gradient_def
proof (intro conjI allI impI)
  show "grad_like (gradient loss ss) ss"
    by (simp add: grad_like_def gradient_def grad_like_gradient_stages)
next
  fix k W b gW gb i D
  assume k: "k < length ss \<and> ss ! k = Linear W b \<and> gradient loss ss ! k = Some (gW, gb)"
    and d: "i < length (data W) \<and>
      ((\<lambda>v. loss_at loss (set_weight ss k i v)) has_real_derivative D) (at (data W ! i))"
  from k gradient_nth_Linear [of k ss W b loss]
  have "gW = W\<lparr>data := map (\<lambda>i. partial (\<lambda>v. loss_at loss (set_weight ss k i v)) (data W ! i))
                         [0..<length (data W)]\<rparr>"
    by simp
  with d show "data gW ! i = D" by (simp add: partial_eq)
next
  fix k W b gW gb i D
  assume k: "k < length ss \<and> ss ! k = Linear W b \<and> gradient loss ss ! k = Some (gW, gb)"
    and d: "i < length (data b) \<and>
      ((\<lambda>v. loss_at loss (set_bias ss k i v)) has_real_derivative D) (at (data b ! i))"
  from k gradient_nth_Linear [of k ss W b loss]
  have "gb = b\<lparr>data := map (\<lambda>i. partial (\<lambda>v. loss_at loss (set_bias ss k i v)) (data b ! i))
                         [0..<length (data b)]\<rparr>"
    by simp
  with d show "data gb ! i = D" by (simp add: partial_eq)
qed

lemma train_step_stage:
  assumes g: "is_gradient loss (linear_relu_stack self) g"
    and k: "k < length (linear_relu_stack self)" "linear_relu_stack self ! k = Linear W b0"
  shows "\<exists>gW gb. g ! k = Some (gW, gb) \<and>
           sgd_update rate (linear_relu_stack self) g ! k
             = Linear (sgd_tensor rate W gW) (sgd_tensor rate b0 gb) \<and>
           (\<forall>i<length (data W).
              data (sgd_tensor rate W gW) ! i = data W ! i - rate * data gW ! i \<and>
              (\<forall>D. ((\<lambda>v. loss_at loss (set_weight (linear_relu_stack self) k i v))
                       has_real_derivative D) (at (data W ! i)) \<longrightarrow> data gW ! i = D)) \<and>
           (\<forall>i<length (data b0).
              data (sgd_tensor rate b0 gb) ! i = data b0 ! i - rate * data gb ! i \<and>
              (\<forall>D. ((\<lambda>v. loss_at loss (set_bias (linear_relu_stack self) k i v))
                       has_real_derivative D) (at (data b0 ! i)) \<longrightarrow> data gb ! i = D))"
proof -
  let ?ss = "linear_relu_stack self"
  from g have all2: "list_all2 grad_like_stage g ?ss" by (rule is_gradient_like)
  then have len: "length g = length ?ss" by (rule list_all2_lengthD)
  from all2 k have "grad_like_stage (g ! k) (Linear W b0)"
    by (auto simp: list_all2_conv_all_nth)
  then obtain gW gb where gk: "g ! k = Some (gW, gb)"
    and sz: "length (data gW) = length (data W)" "length (data gb) = length (data b0)"
    by (cases "g ! k") auto
  have upd: "sgd_update rate ?ss g ! k = Linear (sgd_tensor rate W gW) (sgd_tensor rate b0 gb)"
    using k len gk by (simp add: sgd_update_def)
  from g k gk have dW: "\<forall>i D. i < length (data W) \<and>
            ((\<lambda>v. loss_at loss (set_weight ?ss k i v)) has_real_derivative D) (at (data W ! i))
            \<longrightarrow> data gW ! i = D"
    and db: "\<forall>i D. i < length (data b0) \<and>
            ((\<lambda>v. loss_at loss (set_bias ?ss k i v)) has_real_derivative D) (at (data b0 ! i))
            \<longrightarrow> data gb ! i = D"
    unfolding is_gradient_def by blast+
  from gk upd sz dW db show ?thesis
    by (auto simp: sgd_tensor_nth)
qed

text \<open>
  C2. On well-formed data a run of \<open>n\<close> epochs succeeds, and the model it ends with is the
  one obtained by applying the update of one batch to every batch of the training data
  in order, once each, and repeating that pass \<open>n\<close> times; exactly one forward pass per
  batch and epoch is recorded for differentiation. For a batch, the recorded loss at the
  current parameters is the cross-entropy of the scores of the forward pass and the
  labels; the differentiation returns a gradient for the weight and the bias of every
  linear stage, whose element at a place is the derivative of that loss in the
  parameter element at that place wherever the derivative exists; and the update
  replaces every element \<open>p\<close> of every weight and bias by \<open>p - lr * g\<close>, \<open>g\<close> the element
  of the gradient at that place.
\<close>

theorem training_updates_once_per_batch:
  assumes "train_inv s" "wf_dataset (dataset train_dataloader)"
    and "wf_dataset (dataset test_dataloader)" "dataset test_dataloader \<noteq> []"
    and "\<forall>loss ss. is_gradient loss ss (autograd loss ss)"
  shows "(\<exists>s'. epoch_loop autograd train_dataloader test_dataloader CrossEntropyLoss optimizer n t s
             = Inr s' \<and>
           model s'
             = (train_epoch autograd CrossEntropyLoss (lr optimizer)
                  (chunks (batch_size train_dataloader) (dataset train_dataloader)) ^^ n) (model s) \<and>
           graphs s' = graphs s
             + n * length (chunks (batch_size train_dataloader) (dataset train_dataloader)))
     \<and> (\<forall>self b X y. collate b = Inr (X, y) \<longrightarrow>
           recorded_loss CrossEntropyLoss self X y (linear_relu_stack self)
             = bind_err (forward self X) (\<lambda>pred. CrossEntropyLoss pred y) \<and>
           (\<forall>k W b0. k < length (linear_relu_stack self) \<and> linear_relu_stack self ! k = Linear W b0 \<longrightarrow>
              (\<exists>gW gb.
                 autograd (recorded_loss CrossEntropyLoss self X y) (linear_relu_stack self) ! k
                   = Some (gW, gb) \<and>
                 linear_relu_stack (train_step autograd CrossEntropyLoss (lr optimizer) self b) ! k
                   = Linear (sgd_tensor (lr optimizer) W gW) (sgd_tensor (lr optimizer) b0 gb) \<and>
                 (\<forall>i<length (data W).
                    data (sgd_tensor (lr optimizer) W gW) ! i
                      = data W ! i - lr optimizer * data gW ! i \<and>
                    (\<forall>D. ((\<lambda>v. loss_at (recorded_loss CrossEntropyLoss self X y)
                                   (set_weight (linear_relu_stack self) k i v))
                             has_real_derivative D) (at (data W ! i)) \<longrightarrow> data gW ! i = D)) \<and>
                 (\<forall>i<length (data b0).
                    data (sgd_tensor (lr optimizer) b0 gb) ! i
                      = data b0 ! i - lr optimizer * data gb ! i \<and>
                    (\<forall>D. ((\<lambda>v. loss_at (recorded_loss CrossEntropyLoss self X y)
                                   (set_bias (linear_relu_stack self) k i v))
                             has_real_derivative D) (at (data b0 ! i)) \<longrightarrow> data gb ! i = D)))))"
proof (intro conjI allI impI)
  from epoch_loop_correct [where autograd = autograd and optimizer = optimizer and n = n and t = t,
      OF assms]
  show "\<exists>s'. epoch_loop autograd train_dataloader test_dataloader CrossEntropyLoss optimizer n t s
             = Inr s' \<and>
           model s'
             = (train_epoch autograd CrossEntropyLoss (lr optimizer)
                  (chunks (batch_size train_dataloader) (dataset train_dataloader)) ^^ n) (model s) \<and>
           graphs s' = graphs s
             + n * length (chunks (batch_size train_dataloader) (dataset train_dataloader))"
    by blast
next
  fix self :: neural_network and b X y
  show "recorded_loss CrossEntropyLoss self X y (linear_relu_stack self)
             = bind_err (forward self X) (\<lambda>pred. CrossEntropyLoss pred y)"
    by (rule recorded_loss_current)
next
  fix self :: neural_network and b X y k W b0
  assume c: "collate b = Inr (X, y)"
    and k: "k < length (linear_relu_stack self) \<and> linear_relu_stack self ! k = Linear W b0"
  let ?L = "recorded_loss CrossEntropyLoss self X y"
  have g: "is_gradient ?L (linear_relu_stack self) (autograd ?L (linear_relu_stack self))"
    using assms(5) by blast
  have ts: "linear_relu_stack (train_step autograd CrossEntropyLoss (lr optimizer) self b)
      = sgd_update (lr optimizer) (linear_relu_stack self) (autograd ?L (linear_relu_stack self))"
    using c by (simp add: train_step_def)
  from train_step_stage [OF g, of k W b0 "lr optimizer"] k
  show "\<exists>gW gb.
                 autograd ?L (linear_relu_stack self) ! k = Some (gW, gb) \<and>
                 linear_relu_stack (train_step autograd CrossEntropyLoss (lr optimizer) self b) ! k
                   = Linear (sgd_tensor (lr optimizer) W gW) (sgd_tensor (lr optimizer) b0 gb) \<and>
                 (\<forall>i<length (data W).
                    data (sgd_tensor (lr optimizer) W gW) ! i
                      = data W ! i - lr optimizer * data gW ! i \<and>
                    (\<forall>D. ((\<lambda>v. loss_at ?L (set_weight (linear_relu_stack self) k i v))
                             has_real_derivative D) (at (data W ! i)) \<longrightarrow> data gW ! i = D)) \<and>
                 (\<forall>i<length (data b0).
                    data (sgd_tensor (lr optimizer) b0 gb) ! i
                      = data b0 ! i - lr optimizer * data gb ! i \<and>
                    (\<forall>D. ((\<lambda>v. loss_at ?L (set_bias (linear_relu_stack self) k i v))
                             has_real_derivative D) (at (data b0 ! i)) \<longrightarrow> data gb ! i = D))"
    unfolding ts by simp
qed

lemma training_run_correct:
  assumes "train_inv s" "wf_dataset training_data" "wf_dataset test_data" "test_data \<noteq> []"
    and "\<forall>loss ss. is_gradient loss ss (autograd loss ss)"
  shows "\<exists>s'. training_run autograd training_data test_data s = Inr s' \<and>
           model s'
             = (train_epoch autograd CrossEntropyLoss learning_rate (chunks 64 training_data) ^^ epochs)
                 (model s) \<and>
           graphs s' = graphs s + epochs * length (chunks 64 training_data)"
proof -
  let ?tr = "\<lparr>dataset = training_data, batch_size = 64\<rparr>"
  let ?te = "\<lparr>dataset = test_data, batch_size = 64\<rparr>"
  have "wf_dataset (dataset ?tr)" "wf_dataset (dataset ?te)" "dataset ?te \<noteq> []"
    using assms(2-4) by simp_all
  from epoch_loop_correct [where autograd = autograd and optimizer = "\<lparr>lr = learning_rate\<rparr>"
      and n = epochs and t = 0, OF assms(1) this assms(5)]
  obtain s1 where "epoch_loop autograd ?tr ?te CrossEntropyLoss \<lparr>lr = learning_rate\<rparr> epochs 0 s = Inr s1"
    "model s1
       = (train_epoch autograd CrossEntropyLoss learning_rate (chunks 64 training_data) ^^ epochs)
           (model s)"
    "graphs s1 = graphs s + epochs * length (chunks 64 training_data)"
    by auto
  then show ?thesis by (simp add: training_run_def)
qed

lemma Linear_init_const:
  "Linear_init i k (\<lambda>_. c) (\<lambda>_. d)
     = Linear \<lparr>shape = [k, i], data = replicate (k * i) c\<rparr> \<lparr>shape = [k], data = replicate k d\<rparr>"
  by (simp add: Linear_init_def map_replicate_const)

lemma rows_replicate: "rows n k (replicate (n * k) c) = replicate n (replicate k c)"
proof (induction n)
  case 0
  then show ?case by simp
next
  case (Suc n)
  have "drop k (replicate (k + n * k) c) = replicate (n * k) c" by simp
  moreover have "take k (replicate (k + n * k) c) = replicate k c" by simp
  ultimately show ?case using Suc by simp
qed

lemma dot_zero: "dot r (replicate n 0) = 0"
proof -
  have "map2 (*) r (replicate n 0) = replicate (min (length r) n) (0 :: real)"
    by (intro nth_equalityI) simp_all
  then show ?thesis by (simp add: dot_def sum_list_replicate)
qed

lemma nn_Linear_zero_weight:
  assumes "shape W = [out, inn]" "data W = replicate (out * inn) 0"
    and "length (data b) = out" "shape x = [B, inn]"
  shows "nn_Linear W b x = Inr \<lparr>shape = [B, out], data = concat (replicate B (data b))\<rparr>"
proof -
  have row: "map2 (\<lambda>w bj. dot r w + bj) (replicate out (replicate inn 0)) (data b) = data b" for r
    using assms(3) by (intro nth_equalityI) (simp_all add: dot_zero)
  have "map (\<lambda>r. map2 (\<lambda>w bj. dot r w + bj) (rows out inn (data W)) (data b)) (rows B inn (data x))
      = replicate B (data b)"
    unfolding assms(2) rows_replicate row by (simp add: map_replicate_const)
  then show ?thesis
    using nn_Linear_2d [OF assms(1,4), of b] by simp
qed

text \<open>An example: all weights 0, the last bias 1, one sample of class 0.\<close>

lemma example_stack:
  "linear_relu_stack (NeuralNetwork (\<lambda>k i. if k = 5 then 1 else 0)) =
     [Linear \<lparr>shape = [512, 784], data = replicate (512 * 784) 0\<rparr> \<lparr>shape = [512], data = replicate 512 0\<rparr>,
      ReLU,
      Linear \<lparr>shape = [512, 512], data = replicate (512 * 512) 0\<rparr> \<lparr>shape = [512], data = replicate 512 0\<rparr>,
      ReLU,
      Linear \<lparr>shape = [10, 512], data = replicate (10 * 512) 0\<rparr> \<lparr>shape = [10], data = replicate 10 1\<rparr>,
      ReLU]"
proof -
  have "Linear_init (28 * 28) 512 (\<lambda>i. 0) (\<lambda>i. 0)
      = Linear \<lparr>shape = [512, 784], data = replicate (512 * 784) 0\<rparr> \<lparr>shape = [512], data = replicate 512 0\<rparr>"
    using Linear_init_const [of "28 * 28" 512 0 0] by simp
  moreover have "Linear_init 512 512 (\<lambda>i. 0) (\<lambda>i. 0)
      = Linear \<lparr>shape = [512, 512], data = replicate (512 * 512) 0\<rparr> \<lparr>shape = [512], data = replicate 512 0\<rparr>"
    by (rule Linear_init_const)
  moreover have "Linear_init 512 10 (\<lambda>i. 0) (\<lambda>i. 1)
      = Linear \<lparr>shape = [10, 512], data = replicate (10 * 512) 0\<rparr> \<lparr>shape = [10], data = replicate 10 1\<rparr>"
    by (rule Linear_init_const)
  ultimately show ?thesis by (simp add: NeuralNetwork_def)
qed

lemma example_forward:
  assumes "shape X = [1, 1, 28, 28]"
  shows "forward (self\<lparr>linear_relu_stack :=
            set_bias (linear_relu_stack (NeuralNetwork (\<lambda>k i. if k = 5 then 1 else 0))) 4 0 v\<rparr>) X
         = Inr \<lparr>shape = [1, 10], data = relu v # replicate 9 1\<rparr>"
proof -
  let ?W1 = "\<lparr>shape = [512, 784], data = replicate (512 * 784) 0\<rparr>"
  let ?W2 = "\<lparr>shape = [512, 512], data = replicate (512 * 512) 0\<rparr>"
  let ?W3 = "\<lparr>shape = [10, 512], data = replicate (10 * 512) 0\<rparr>"
  let ?z = "\<lparr>shape = [512], data = replicate 512 0\<rparr>"
  let ?b3 = "\<lparr>shape = [10], data = (replicate 10 1)[0 := v]\<rparr>"
  have four: "(4::nat) = Suc (Suc (Suc (Suc 0)))" by simp
  have st: "set_bias (linear_relu_stack (NeuralNetwork (\<lambda>k i. if k = 5 then 1 else 0))) 4 0 v
      = [Linear ?W1 ?z, ReLU, Linear ?W2 ?z, ReLU, Linear ?W3 ?b3, ReLU]"
    unfolding example_stack set_bias_def four by simp
  have fl: "nn_Flatten X = Inr (X\<lparr>shape := [1, 784]\<rparr>)"
    using nn_Flatten_4d [OF assms] by simp
  have l1: "nn_Linear ?W1 ?z (X\<lparr>shape := [1, 784]\<rparr>)
      = Inr \<lparr>shape = [1, 512], data = concat (replicate 1 (data ?z))\<rparr>"
    by (rule nn_Linear_zero_weight) simp_all
  have l2: "nn_Linear ?W2 ?z (nn_ReLU \<lparr>shape = [1, 512], data = concat (replicate 1 (data ?z))\<rparr>)
      = Inr \<lparr>shape = [1, 512], data = concat (replicate 1 (data ?z))\<rparr>"
    by (rule nn_Linear_zero_weight) simp_all
  have l3: "nn_Linear ?W3 ?b3 (nn_ReLU \<lparr>shape = [1, 512], data = concat (replicate 1 (data ?z))\<rparr>)
      = Inr \<lparr>shape = [1, 10], data = concat (replicate 1 (data ?b3))\<rparr>"
    by (rule nn_Linear_zero_weight) simp_all
  have "replicate (Suc 9) (1::real) = 1 # replicate 9 1" by (rule replicate_Suc)
  then have "replicate 10 (1::real) = 1 # replicate 9 1" by simp
  then have b3: "(replicate 10 (1::real))[0 := v] = v # replicate 9 1" by simp
  have r3: "nn_ReLU \<lparr>shape = [1, 10], data = concat (replicate 1 (data ?b3))\<rparr>
      = \<lparr>shape = [1, 10], data = relu v # replicate 9 1\<rparr>"
    unfolding nn_ReLU_def by (simp add: b3 relu_def)
  have sel: "linear_relu_stack (self\<lparr>linear_relu_stack :=
      [Linear ?W1 ?z, ReLU, Linear ?W2 ?z, ReLU, Linear ?W3 ?b3, ReLU]\<rparr>)
      = [Linear ?W1 ?z, ReLU, Linear ?W2 ?z, ReLU, Linear ?W3 ?b3, ReLU]"
    by simp
  show ?thesis
    unfolding forward_def st sel
    by (simp only: fl l1 l2 l3 r3 Sequential.simps apply_stage.simps bind_err_simps)
qed

lemma example_loss:
  assumes "shape X = [1, 1, 28, 28]"
  shows "loss_at (recorded_loss CrossEntropyLoss self X [0])
           (set_bias (linear_relu_stack (NeuralNetwork (\<lambda>k i. if k = 5 then 1 else 0))) 4 0 v)
         = ln (exp (relu v) + 9 * exp 1) - relu v"
proof -
  have ce: "CrossEntropyLoss \<lparr>shape = [1, 10], data = relu v # replicate 9 1\<rparr> [0]
      = Inr (ln (exp (relu v) + 9 * exp 1) - relu v)"
    unfolding CrossEntropyLoss_def
    by (simp add: nll_loss_def log_softmax_def sum_list_replicate)
  show ?thesis
    unfolding loss_at_def recorded_loss_def example_forward [OF assms]
    by (simp only: bind_err_simps ce sum.case)
qed

lemma example_derivative:
  "((\<lambda>v. ln (exp (relu v) + 9 * exp 1) - relu v) has_real_derivative - (9 / 10)) (at 1)"
proof -
  have pos: "exp (v::real) + 9 * exp 1 > 0" for v
    by (simp add: add_pos_pos)
  have "((\<lambda>v::real. ln (exp v + 9 * exp 1) - v) has_real_derivative
      (exp 1 / (exp 1 + 9 * exp 1) - 1)) (at 1)"
    using pos [of 1] by (auto intro!: derivative_eq_intros simp: field_simps)
  moreover have "exp 1 / (exp 1 + 9 * exp 1) - 1 = - (9 / 10 :: real)"
  proof -
    have "exp 1 + 9 * exp 1 = 10 * exp (1::real)" by simp
    then show ?thesis by simp
  qed
  ultimately have d: "((\<lambda>v::real. ln (exp v + 9 * exp 1) - v) has_real_derivative - (9 / 10)) (at 1)"
    by simp
  have "eventually (\<lambda>v::real. v \<in> {0<..}) (nhds 1)"
    by (rule eventually_nhds_in_open) simp_all
  then have ev: "eventually (\<lambda>v. ln (exp (relu v) + 9 * exp 1) - relu v
      = ln (exp v + 9 * exp 1) - v) (nhds 1)"
    by (rule eventually_mono) (simp add: relu_def)
  show ?thesis
    using d DERIV_cong_ev [OF refl ev refl] by blast
qed

text \<open>
  One epoch on one sample of class 0, from all weights 0 and last bias 1, with the
  gradient of mathematics: the ten scores are equal, the derivative of the loss in the
  first element of the last bias is \<open>1/10 - 1\<close>, and the element moves from 1 to
  \<open>1 + 9/10000\<close>.
\<close>

theorem training_updates_once_per_batch_witness:
  "\<exists>s'. epoch_loop gradient
            \<lparr>dataset = [(\<lparr>shape = [1, 28, 28], data = replicate 784 1\<rparr>, 0)], batch_size = 64\<rparr>
            \<lparr>dataset = [(\<lparr>shape = [1, 28, 28], data = replicate 784 1\<rparr>, 0)], batch_size = 64\<rparr>
            CrossEntropyLoss \<lparr>lr = learning_rate\<rparr> 1 0
            (init_state (\<lambda>k i. if k = 5 then 1 else 0)) = Inr s' \<and>
          graphs s' = 1 \<and>
          data (bias (linear_relu_stack (model s') ! 4)) ! 0 = 10009 / 10000"
proof -
  let ?rnd = "\<lambda>(k::nat) (i::nat). if k = 5 then 1 else (0::real)"
  let ?x = "\<lparr>shape = [1, 28, 28], data = replicate 784 (1::real)\<rparr>"
  let ?b = "[(?x, 0::nat)]"
  let ?dl = "\<lparr>dataset = ?b, batch_size = 64\<rparr>"
  let ?opt = "\<lparr>lr = learning_rate\<rparr>"
  let ?self = "NeuralNetwork ?rnd"
  let ?X = "\<lparr>shape = [1, 1, 28, 28], data = concat (map (\<lambda>(x, _). data x) ?b)\<rparr>"
  let ?W3 = "\<lparr>shape = [10, 512], data = replicate (10 * 512) (0::real)\<rparr>"
  let ?b3 = "\<lparr>shape = [10], data = replicate 10 (1::real)\<rparr>"
  let ?L = "recorded_loss CrossEntropyLoss ?self ?X [0]"
  have inv: "train_inv (init_state ?rnd)" by (rule train_inv_init_state)
  have ds: "wf_dataset (dataset ?dl)" "dataset ?dl \<noteq> []"
    by (simp_all add: wf_dataset_def wf_tensor_def)
  have ag: "\<forall>loss ss. is_gradient loss ss (gradient loss ss)"
    by (simp add: is_gradient_gradient)
  note main = training_updates_once_per_batch [where autograd = gradient and optimizer = ?opt
      and n = 1 and t = 0, OF inv ds(1) ds(1) ds(2) ag]
  have ch: "chunks (batch_size ?dl) (dataset ?dl) = [?b]"
    by (simp add: chunks.simps)
  from main obtain s' where run: "epoch_loop gradient ?dl ?dl CrossEntropyLoss ?opt 1 0 (init_state ?rnd) = Inr s'"
    and m: "model s' = (train_epoch gradient CrossEntropyLoss (lr ?opt)
                  (chunks (batch_size ?dl) (dataset ?dl)) ^^ 1) (model (init_state ?rnd))"
    and g: "graphs s' = graphs (init_state ?rnd) + 1 * length (chunks (batch_size ?dl) (dataset ?dl))"
    by blast
  have m': "model s' = train_step gradient CrossEntropyLoss (lr ?opt) ?self ?b"
    unfolding m ch by (simp add: train_epoch_def init_state_def)
  have g': "graphs s' = 1"
    unfolding g ch by (simp add: init_state_def)
  have col: "collate ?b = Inr (?X, [0])"
    by (simp add: collate_def)
  have k: "4 < length (linear_relu_stack ?self) \<and> linear_relu_stack ?self ! 4 = Linear ?W3 ?b3"
    unfolding example_stack by simp
  from main col k obtain gW gb where
    upd: "linear_relu_stack (train_step gradient CrossEntropyLoss (lr ?opt) ?self ?b) ! 4
            = Linear (sgd_tensor (lr ?opt) ?W3 gW) (sgd_tensor (lr ?opt) ?b3 gb)"
    and el: "\<forall>i<length (data ?b3).
                    data (sgd_tensor (lr ?opt) ?b3 gb) ! i
                      = data ?b3 ! i - lr ?opt * data gb ! i \<and>
                    (\<forall>D. ((\<lambda>v. loss_at ?L (set_bias (linear_relu_stack ?self) 4 i v))
                             has_real_derivative D) (at (data ?b3 ! i)) \<longrightarrow> data gb ! i = D)"
    by blast
  have "shape ?X = [1, 1, 28, 28]" by simp
  then have lf: "(\<lambda>v. loss_at ?L (set_bias (linear_relu_stack ?self) 4 0 v))
      = (\<lambda>v. ln (exp (relu v) + 9 * exp 1) - relu v)"
    by (intro ext example_loss)
  have at1: "data ?b3 ! 0 = 1" by simp
  have d: "((\<lambda>v. loss_at ?L (set_bias (linear_relu_stack ?self) 4 0 v))
      has_real_derivative - (9 / 10)) (at (data ?b3 ! 0))"
    unfolding lf at1 by (rule example_derivative)
  have "0 < length (data ?b3)" by simp
  with el d have "data (sgd_tensor (lr ?opt) ?b3 gb) ! 0 = data ?b3 ! 0 - lr ?opt * data gb ! 0"
    and "data gb ! 0 = - (9 / 10)"
    by blast+
  then have "data (sgd_tensor (lr ?opt) ?b3 gb) ! 0 = 10009 / 10000"
    unfolding at1 by (simp add: learning_rate_def)
  then have "data (bias (linear_relu_stack (model s') ! 4)) ! 0 = 10009 / 10000"
    unfolding m' upd by simp
  with run g' show ?thesis by blast
qed


section \<open>Properties of the floating-point embedding\<close>

subsection \<open>The forward pass over float32\<close>

lemma relu32_cases: "relu32 x = NaN \<or> fle (Finite 0) (relu32 x)"
  by (cases x) (simp_all add: relu32_def)

lemma relu32_simps [simp]:
  "relu32 NaN = NaN" "relu32 PosInf = PosInf" "relu32 NegInf = Finite 0"
  "relu32 (Finite x) = Finite (if x < 0 then 0 else x)"
  by (simp_all add: relu32_def)

lemma Sequential32_append:
  "Sequential32 mode (ss @ ts) gen x =
     bind_err (Sequential32 mode ss gen x) (\<lambda>(y, gen'). Sequential32 mode ts gen' y)"
proof (induction ss arbitrary: gen x)
  case Nil
  show ?case by simp
next
  case (Cons s ss)
  show ?case
  proof (cases "apply_stage32 mode gen s x")
    case (Inl e)
    then show ?thesis by simp
  next
    case (Inr p)
    obtain y g where p: "p = (y, g)" by (cases p)
    show ?thesis using Cons.IH [of g y] by (simp add: Inr p)
  qed
qed

lemma Sequential32_plain:
  "list_all plain ss \<Longrightarrow>
     \<exists>r. \<forall>mode gen. Sequential32 mode ss gen x = bind_err r (\<lambda>y. Inr (y, gen))"
proof (induction ss arbitrary: x)
  case Nil
  have "\<forall>mode gen. Sequential32 mode [] gen x = bind_err (Inr x) (\<lambda>y. Inr (y, gen))" by simp
  then show ?case by blast
next
  case (Cons s ss)
  from Cons.prems have ps: "plain s" and pss: "list_all plain ss" by simp_all
  show ?case
  proof (cases s)
    case (Linear32 W b)
    show ?thesis
    proof (cases "nn_Linear32 W b x")
      case (Inl e)
      have "\<forall>mode gen. Sequential32 mode (s # ss) gen x = bind_err (Inl e) (\<lambda>y. Inr (y, gen))"
        by (simp add: Linear32 Inl)
      then show ?thesis by blast
    next
      case (Inr y)
      from Cons.IH [OF pss, of y] obtain r
        where r: "\<forall>mode gen. Sequential32 mode ss gen y = bind_err r (\<lambda>y. Inr (y, gen))" by blast
      have "\<forall>mode gen. Sequential32 mode (s # ss) gen x = bind_err r (\<lambda>y. Inr (y, gen))"
        by (simp add: Linear32 Inr r)
      then show ?thesis by blast
    qed
  next
    case ReLU32
    from Cons.IH [OF pss, of "nn_ReLU32 x"] obtain r
      where r: "\<forall>mode gen. Sequential32 mode ss gen (nn_ReLU32 x) = bind_err r (\<lambda>y. Inr (y, gen))"
      by blast
    have "\<forall>mode gen. Sequential32 mode (s # ss) gen x = bind_err r (\<lambda>y. Inr (y, gen))"
      by (simp add: ReLU32 r)
    then show ?thesis by blast
  next
    case (Module32 f)
    with ps show ?thesis by simp
  qed
qed

lemma forward32_plain:
  assumes "list_all plain ss"
  shows "\<exists>r. \<forall>mode gen. forward32 \<lparr>linear_relu_stack32 = ss, training32 = mode\<rparr> gen x
            = bind_err r (\<lambda>y. Inr (y, gen))"
proof (cases "nn_Flatten32 x")
  case (Inl e)
  have "\<forall>mode gen. forward32 \<lparr>linear_relu_stack32 = ss, training32 = mode\<rparr> gen x
          = bind_err (Inl e) (\<lambda>y. Inr (y, gen))"
    by (simp add: forward32_def Inl)
  then show ?thesis by blast
next
  case (Inr x')
  from Sequential32_plain [OF assms, of x'] obtain r
    where "\<forall>mode gen. Sequential32 mode ss gen x' = bind_err r (\<lambda>y. Inr (y, gen))" by blast
  then have "\<forall>mode gen. forward32 \<lparr>linear_relu_stack32 = ss, training32 = mode\<rparr> gen x
          = bind_err r (\<lambda>y. Inr (y, gen))"
    by (simp add: forward32_def Inr)
  then show ?thesis by blast
qed

lemma NeuralNetwork32_plain: "list_all plain (linear_relu_stack32 (NeuralNetwork32 rnd))"
  by (simp add: NeuralNetwork32_def Linear32_init_def)

lemma Sequential32_last_ReLU32:
  assumes "Sequential32 mode (ss @ [ReLU32]) gen x = Inr (y, gen')"
  shows "\<exists>h. y = nn_ReLU32 h"
proof (cases "Sequential32 mode ss gen x")
  case (Inl e)
  with assms show ?thesis by (simp add: Sequential32_append)
next
  case (Inr p)
  obtain h g where "p = (h, g)" by (cases p)
  with assms Inr have "y = nn_ReLU32 h" by (simp add: Sequential32_append)
  then show ?thesis by blast
qed

lemma relu32_not_negative: "\<not> fless (relu32 x) (Finite 0)"
  by (cases x) (simp_all add: relu32_def)

text \<open>
  C9 (amended). The last stage of the stack is a ReLU, so no score the forward pass
  returns is below 0, whatever the input and the parameters: every score is at least 0
  (it may be \<open>inf\<close>) or is NaN.
\<close>

theorem forward32_scores_not_negative:
  assumes "linear_relu_stack32 self = ss @ [ReLU32]" "forward32 self gen x = Inr (logits, gen')"
  shows "\<forall>v \<in> set (data32 logits). (fle (Finite 0) v \<or> v = NaN) \<and> \<not> fless v (Finite 0)"
proof -
  from assms obtain x0 where "Sequential32 (training32 self) (ss @ [ReLU32]) gen x0 = Inr (logits, gen')"
    by (auto simp: forward32_def bind_err_Inr_iff)
  then obtain h where "logits = nn_ReLU32 h" by (blast dest: Sequential32_last_ReLU32)
  then show ?thesis
    using relu32_cases relu32_not_negative by (auto simp: nn_ReLU32_def)
qed

subsection \<open>Tensors of one value\<close>

lemma Linear32_init_const:
  "Linear32_init i k (\<lambda>_. c) (\<lambda>_. d) = Linear32 (full32 [k, i] c) (full32 [k] d)"
  by (simp add: Linear32_init_def full32_def map_replicate_const)

lemma concat_replicate_replicate: "concat (replicate n (replicate k c)) = replicate (n * k) c"
  by (induction n) (simp_all add: replicate_add)

lemma nn_Linear32_full:
  "nn_Linear32 (full32 [out, inn] w) (full32 [out] b) (full32 [B, inn] a)
     = Inr (full32 [B, out]
             (fadd float32_max (sum32 (replicate inn (fmul float32_max a w))) b))"
proof -
  have d: "dot32 (replicate inn a) (replicate inn w) = sum32 (replicate inn (fmul float32_max a w))"
    by (simp add: dot32_def)
  have "concat (map (\<lambda>r. map2 (\<lambda>w bj. fadd float32_max (dot32 r w) bj)
                        (rows out inn (replicate (out * inn) w)) (replicate out b))
                (rows B inn (replicate (B * inn) a)))
      = replicate (B * out) (fadd float32_max (sum32 (replicate inn (fmul float32_max a w))) b)"
    unfolding rows_replicate by (simp add: d concat_replicate_replicate)
  then show ?thesis by (simp add: nn_Linear32_def full32_def)
qed

lemma nn_ReLU32_full: "nn_ReLU32 (full32 sh c) = full32 sh (relu32 c)"
  by (simp add: nn_ReLU32_def full32_def)

lemma nn_Flatten32_full: "nn_Flatten32 (full32 (d0 # d1 # ds) c) = Inr (full32 [d0, prod_list (d1 # ds)] c)"
  by (simp add: nn_Flatten32_def full32_def)

lemma sum32_replicate_NaN: "0 < n \<Longrightarrow> sum32 (replicate n NaN) = NaN"
proof -
  have "foldl (fadd float32_max) NaN (replicate k NaN) = NaN" for k by (induction k) simp_all
  then show "0 < n \<Longrightarrow> sum32 (replicate n NaN) = NaN"
    by (cases n) (simp_all add: sum32_def)
qed

lemma sum32_replicate_PosInf: "0 < n \<Longrightarrow> sum32 (replicate n PosInf) = PosInf"
proof -
  have "foldl (fadd float32_max) PosInf (replicate k PosInf) = PosInf" for k by (induction k) simp_all
  then show "0 < n \<Longrightarrow> sum32 (replicate n PosInf) = PosInf"
    by (cases n) (simp_all add: sum32_def)
qed

text \<open>
  An example: the model whose first weight matrix holds \<open>2 ^ 127\<close> everywhere and whose other
  parameters are 0, on the image whose pixels all are 4. Every parameter and every pixel
  is a finite float32. The first layer overflows to \<open>inf\<close>, the second multiplies \<open>inf\<close> by 0.
\<close>

lemma overflow_stack:
  "linear_relu_stack32 (NeuralNetwork32 (\<lambda>k i. if k = 0 then Finite (2 ^ 127) else Finite 0)) =
     [Linear32 (full32 [512, 784] (Finite (2 ^ 127))) (full32 [512] (Finite 0)),
      ReLU32,
      Linear32 (full32 [512, 512] (Finite 0)) (full32 [512] (Finite 0)),
      ReLU32,
      Linear32 (full32 [10, 512] (Finite 0)) (full32 [10] (Finite 0)),
      ReLU32]"
proof -
  have "Linear32_init (28 * 28) 512 (\<lambda>i. Finite (2 ^ 127)) (\<lambda>i. Finite 0)
      = Linear32 (full32 [512, 784] (Finite (2 ^ 127))) (full32 [512] (Finite 0))"
    using Linear32_init_const [of "28 * 28" 512 "Finite (2 ^ 127)" "Finite 0"] by simp
  moreover have "Linear32_init 512 512 (\<lambda>i. Finite 0) (\<lambda>i. Finite 0)
      = Linear32 (full32 [512, 512] (Finite 0)) (full32 [512] (Finite 0))"
    by (rule Linear32_init_const)
  moreover have "Linear32_init 512 10 (\<lambda>i. Finite 0) (\<lambda>i. Finite 0)
      = Linear32 (full32 [10, 512] (Finite 0)) (full32 [10] (Finite 0))"
    by (rule Linear32_init_const)
  ultimately show ?thesis by (simp add: NeuralNetwork32_def)
qed

lemma overflow_layers:
  "nn_Linear32 (full32 [512, 784] (Finite (2 ^ 127))) (full32 [512] (Finite 0)) (full32 [B, 784] (Finite 4))
     = Inr (full32 [B, 512] PosInf)"
  "nn_Linear32 (full32 [512, 512] (Finite 0)) (full32 [512] (Finite 0)) (full32 [B, 512] PosInf)
     = Inr (full32 [B, 512] NaN)"
  "nn_Linear32 (full32 [10, 512] (Finite 0)) (full32 [10] (Finite 0)) (full32 [B, 512] NaN)
     = Inr (full32 [B, 10] NaN)"
proof -
  have m: "fmul float32_max (Finite 4) (Finite (2 ^ 127)) = PosInf"
    by (simp add: round_to_def float32_max_def)
  show "nn_Linear32 (full32 [512, 784] (Finite (2 ^ 127))) (full32 [512] (Finite 0)) (full32 [B, 784] (Finite 4))
     = Inr (full32 [B, 512] PosInf)"
    unfolding nn_Linear32_full m by (simp add: sum32_replicate_PosInf)
  show "nn_Linear32 (full32 [512, 512] (Finite 0)) (full32 [512] (Finite 0)) (full32 [B, 512] PosInf)
     = Inr (full32 [B, 512] NaN)"
    unfolding nn_Linear32_full by (simp add: sum32_replicate_NaN)
  show "nn_Linear32 (full32 [10, 512] (Finite 0)) (full32 [10] (Finite 0)) (full32 [B, 512] NaN)
     = Inr (full32 [B, 10] NaN)"
    unfolding nn_Linear32_full by (simp add: sum32_replicate_NaN)
qed

lemma overflow_forward:
  assumes "prod_list (d1 # ds) = 784"
  shows "forward32 (NeuralNetwork32 (\<lambda>k i. if k = 0 then Finite (2 ^ 127) else Finite 0)) gen
       (full32 (B # d1 # ds) (Finite 4))
     = Inr (full32 [B, 10] NaN, gen)"
proof -
  have fl: "nn_Flatten32 (full32 (B # d1 # ds) (Finite 4)) = Inr (full32 [B, 784] (Finite 4))"
    unfolding nn_Flatten32_full assms by simp
  show ?thesis
    unfolding forward32_def overflow_stack fl
    by (simp only: bind_err_simps Sequential32.simps apply_stage32.simps overflow_layers
          nn_ReLU32_full relu32_simps prod.case)
qed

text \<open>
  C9 (the claim as the spec has it, refuted). All parameters and all pixels are finite
  float32 values and the stack ends with a ReLU, and yet every score is NaN, which is
  not at least 0.
\<close>

theorem forward32_scores_nan:
  "last (linear_relu_stack32 (NeuralNetwork32 (\<lambda>k i. if k = 0 then Finite (2 ^ 127) else Finite 0))) = ReLU32
   \<and> forward32 (NeuralNetwork32 (\<lambda>k i. if k = 0 then Finite (2 ^ 127) else Finite 0)) (\<lambda>i. 0)
        (full32 [1, 28, 28] (Finite 4))
      = Inr (\<lparr>shape32 = [1, 10], data32 = replicate 10 NaN\<rparr>, \<lambda>i. 0)
   \<and> NaN \<in> set (replicate 10 NaN)
   \<and> \<not> fle (Finite 0) NaN
   \<and> 2 ^ 127 \<le> float32_max \<and> 4 \<le> float32_max"
proof -
  have "full32 [1, 10] NaN = \<lparr>shape32 = [1, 10], data32 = replicate 10 NaN\<rparr>"
    by (simp add: full32_def)
  then show ?thesis
    using overflow_forward [of 28 "[28]" "\<lambda>i. 0" 1] by (simp add: overflow_stack float32_max_def)
qed

theorem forward32_scores_not_negative_witness:
  "forward32 \<lparr>linear_relu_stack32 =
               [Linear32 \<lparr>shape32 = [2, 1], data32 = [Finite (2 ^ 127), Finite (- 1)]\<rparr>
                         \<lparr>shape32 = [2], data32 = [Finite 0, Finite 0]\<rparr>, ReLU32],
             training32 = False\<rparr> (\<lambda>i. 0) \<lparr>shape32 = [1, 1, 1], data32 = [Finite 4]\<rparr>
     = Inr (\<lparr>shape32 = [1, 2], data32 = [PosInf, Finite 0]\<rparr>, \<lambda>i. 0)
   \<and> list_all (\<lambda>v. (fle (Finite 0) v \<or> v = NaN) \<and> \<not> fless v (Finite 0)) [PosInf, Finite 0]
   \<and> (\<exists>logits gen'.
         forward32 (NeuralNetwork32 (\<lambda>k i. if k = 0 then Finite (2 ^ 127) else Finite 0)) (\<lambda>i. 0)
            (full32 [1, 28, 28] (Finite 4)) = Inr (logits, gen')
         \<and> list_all (\<lambda>v. (fle (Finite 0) v \<or> v = NaN) \<and> \<not> fless v (Finite 0)) (data32 logits))"
proof -
  let ?W = "\<lparr>shape32 = [2, 1], data32 = [Finite (2 ^ 127), Finite (- 1)]\<rparr>"
  let ?b = "\<lparr>shape32 = [2], data32 = [Finite 0, Finite 0]\<rparr>"
  let ?self = "\<lparr>linear_relu_stack32 = [Linear32 ?W ?b, ReLU32], training32 = False\<rparr>"
  let ?x = "\<lparr>shape32 = [1, 1, 1], data32 = [Finite 4]\<rparr>"
  let ?y = "\<lparr>shape32 = [1, 2], data32 = [PosInf, Finite 0]\<rparr>"
  let ?M = "NeuralNetwork32 (\<lambda>k i. if k = 0 then Finite (2 ^ 127) else Finite 0)"
  have s: "linear_relu_stack32 ?self = [Linear32 ?W ?b] @ [ReLU32]" by simp
  have f: "forward32 ?self (\<lambda>i. 0) ?x = Inr (?y, \<lambda>i. 0)"
    by (simp add: forward32_def nn_Flatten32_def nn_Linear32_def nn_ReLU32_def dot32_def sum32_def
          round_to_def float32_max_def numeral_2_eq_2)
  from forward32_scores_not_negative [OF s f]
  have 1: "list_all (\<lambda>v. (fle (Finite 0) v \<or> v = NaN) \<and> \<not> fless v (Finite 0)) [PosInf, Finite 0]"
    by (simp only: list_all_iff tensor32.simps)
  have e: "linear_relu_stack32 ?M = butlast (linear_relu_stack32 ?M) @ [ReLU32]"
    by (simp add: overflow_stack)
  have l: "forward32 ?M (\<lambda>i. 0) (full32 [1, 28, 28] (Finite 4)) = Inr (full32 [1, 10] NaN, \<lambda>i. 0)"
    by (rule overflow_forward) simp
  from forward32_scores_not_negative [OF e l]
  have "list_all (\<lambda>v. (fle (Finite 0) v \<or> v = NaN) \<and> \<not> fless v (Finite 0)) (data32 (full32 [1, 10] NaN))"
    by (simp only: list_all_iff)
  with l f 1 show ?thesis by blast
qed

text \<open>
  A module of the third kind can make the result depend on the mode and on the
  generator: one that behaves like a ReLU in training mode only, and one that zeroes its
  input when the next number of the generator is below one half.
\<close>

lemma forward32_module_reads_mode_and_generator:
  "forward32 \<lparr>linear_relu_stack32 = [Module32 (\<lambda>mode gen t. Inr (if mode then nn_ReLU32 t else t, gen))],
              training32 = True\<rparr> (\<lambda>i. 0) \<lparr>shape32 = [1, 1], data32 = [Finite (- 1)]\<rparr>
     \<noteq> forward32 \<lparr>linear_relu_stack32 = [Module32 (\<lambda>mode gen t. Inr (if mode then nn_ReLU32 t else t, gen))],
              training32 = False\<rparr> (\<lambda>i. 0) \<lparr>shape32 = [1, 1], data32 = [Finite (- 1)]\<rparr>"
  "map_sum id fst
     (forward32 \<lparr>linear_relu_stack32 =
                   [Module32 (\<lambda>mode gen t. Inr (if gen 0 < 1 / 2 then nn_ReLU32 t else t, \<lambda>i. gen (Suc i)))],
                 training32 = True\<rparr> (\<lambda>i. 0) \<lparr>shape32 = [1, 1], data32 = [Finite (- 1)]\<rparr>)
     \<noteq> map_sum id fst
     (forward32 \<lparr>linear_relu_stack32 =
                   [Module32 (\<lambda>mode gen t. Inr (if gen 0 < 1 / 2 then nn_ReLU32 t else t, \<lambda>i. gen (Suc i)))],
                 training32 = True\<rparr> (\<lambda>i. 1) \<lparr>shape32 = [1, 1], data32 = [Finite (- 1)]\<rparr>)"
  by (simp_all add: forward32_def nn_Flatten32_def nn_ReLU32_def)

text \<open>
  C10. The stack that \<open>NeuralNetwork\<close> builds holds linear and ReLU stages only, no module
  whose result depends on the mode or on the random number generator. For every such
  stack the forward pass has one result, a function of the stack and the input: whatever
  the mode flags and the generator states of two runs, and whether or not \<open>eval()\<close> was
  called, each run returns that result, and leaves the generator as it found it.
\<close>

theorem forward32_deterministic:
  "list_all plain (linear_relu_stack32 (NeuralNetwork32 rnd)) \<and>
   (list_all plain (linear_relu_stack32 m1) \<and> linear_relu_stack32 m2 = linear_relu_stack32 m1 \<longrightarrow>
      (\<exists>r. forward32 m1 g1 x = bind_err r (\<lambda>y. Inr (y, g1)) \<and>
           forward32 m2 g2 x = bind_err r (\<lambda>y. Inr (y, g2)) \<and>
           forward32 (eval32 m1) g2 x = bind_err r (\<lambda>y. Inr (y, g2))))"
proof (intro conjI impI)
  show "list_all plain (linear_relu_stack32 (NeuralNetwork32 rnd))" by (rule NeuralNetwork32_plain)
next
  assume a: "list_all plain (linear_relu_stack32 m1) \<and> linear_relu_stack32 m2 = linear_relu_stack32 m1"
  from forward32_plain [of "linear_relu_stack32 m1" x] a obtain r
    where r: "\<And>mode gen. forward32 \<lparr>linear_relu_stack32 = linear_relu_stack32 m1, training32 = mode\<rparr> gen x
            = bind_err r (\<lambda>y. Inr (y, gen))" by blast
  have f: "forward32 m gen x
      = forward32 \<lparr>linear_relu_stack32 = linear_relu_stack32 m, training32 = training32 m\<rparr> gen x" for m gen
    by (simp add: forward32_def)
  have "forward32 m1 g1 x = bind_err r (\<lambda>y. Inr (y, g1))" using f [of m1 g1] r by simp
  moreover have "forward32 m2 g2 x = bind_err r (\<lambda>y. Inr (y, g2))" using f [of m2 g2] r a by simp
  moreover have "forward32 (eval32 m1) g2 x = bind_err r (\<lambda>y. Inr (y, g2))"
    using f [of "eval32 m1" g2] r by (simp add: eval32_def)
  ultimately show "\<exists>r. forward32 m1 g1 x = bind_err r (\<lambda>y. Inr (y, g1)) \<and>
           forward32 m2 g2 x = bind_err r (\<lambda>y. Inr (y, g2)) \<and>
           forward32 (eval32 m1) g2 x = bind_err r (\<lambda>y. Inr (y, g2))" by blast
qed

subsection \<open>Floating-point arithmetic\<close>

lemma float_max_pos: "0 \<le> float32_max" "0 \<le> float64_max" "float32_max \<le> float64_max"
  "1 \<le> float32_max" "1 \<le> float64_max"
  by (simp_all add: float32_max_def float64_max_def)

lemma fadd_NaN_right [simp]: "fadd m a NaN = NaN"
  by (cases a) simp_all

lemma fsub_NaN [simp]: "fsub m a NaN = NaN" "fsub m NaN b = NaN"
  by (simp_all add: fsub_def)

lemma fle_trans: "fle a b \<Longrightarrow> fle b c \<Longrightarrow> fle a c"
  by (cases a; cases b; cases c) simp_all

lemma fle_refl: "a \<noteq> NaN \<Longrightarrow> fle a a"
  by (cases a) simp_all

lemma not_fless_fle: "a \<noteq> NaN \<Longrightarrow> b \<noteq> NaN \<Longrightarrow> \<not> fless a b \<Longrightarrow> fle b a"
  by (cases a; cases b) simp_all

lemma fless_fle: "fless a b \<Longrightarrow> fle a b"
  by (cases a; cases b) simp_all

lemma fadd_nonneg:
  assumes "0 \<le> m" "fle (Finite 0) a" "fle (Finite 0) b"
  shows "fle (Finite 0) (fadd m a b)" "fle a (fadd m a b)" "fle b (fadd m a b)"
  using assms by (cases a; cases b; simp add: round_to_def)+

lemma fadd_nonpos:
  assumes "0 \<le> m" "fle a (Finite 0)" "fle b (Finite 0)"
  shows "fle (fadd m a b) (Finite 0)"
  using assms by (cases a; cases b; simp add: round_to_def)

lemma fneg_nonneg: "fle (Finite 0) a \<Longrightarrow> fle (fneg a) (Finite 0)"
  by (cases a) simp_all

lemma fneg_nonpos: "fle a (Finite 0) \<Longrightarrow> fle (Finite 0) (fneg a)"
  by (cases a) simp_all

lemma fadd_nonneg_or_nan:
  "0 \<le> m \<Longrightarrow> nonneg_or_nan a \<Longrightarrow> nonneg_or_nan b \<Longrightarrow> nonneg_or_nan (fadd m a b)"
  unfolding nonneg_or_nan_def using fadd_nonneg(1) [of m a b] by auto

lemma fdiv_nonneg_or_nan:
  "nonneg_or_nan a \<Longrightarrow> fle (Finite 0) b \<Longrightarrow> 0 \<le> m \<Longrightarrow> nonneg_or_nan (fdiv m a b)"
proof -
  assume a: "nonneg_or_nan a" and b: "fle (Finite 0) b" and m: "0 \<le> m"
  have q: "\<not> x / y < - m" if "0 \<le> x" "0 \<le> y" for x y :: real
  proof -
    from that have "0 \<le> x / y" by simp
    with m show ?thesis by linarith
  qed
  show ?thesis
    using a b q unfolding nonneg_or_nan_def
    by (cases a; cases b; simp add: round_to_def)
qed

lemma round_to_nonneg: "0 \<le> m \<Longrightarrow> 0 \<le> x \<Longrightarrow> fle (Finite 0) (round_to m x)"
  by (simp add: round_to_def)

lemma round_to_in_range: "0 \<le> x \<Longrightarrow> x \<le> m \<Longrightarrow> round_to m x = Finite x"
  by (simp add: round_to_def)

lemma foldl_fadd_nonneg_or_nan:
  "0 \<le> m \<Longrightarrow> nonneg_or_nan acc \<Longrightarrow> list_all nonneg_or_nan xs \<Longrightarrow> nonneg_or_nan (foldl (fadd m) acc xs)"
  by (induction xs arbitrary: acc) (simp_all add: fadd_nonneg_or_nan)

lemma foldl_fadd_NaN: "foldl (fadd m) NaN xs = NaN"
  by (induction xs) simp_all

lemma foldl_fadd_has_NaN: "NaN \<in> set xs \<Longrightarrow> foldl (fadd m) acc xs = NaN"
  by (induction xs arbitrary: acc) (auto simp: foldl_fadd_NaN)

lemma foldl_fadd_ge:
  assumes "0 \<le> m"
  shows "fle (Finite 0) acc \<Longrightarrow> \<forall>e \<in> set xs. fle (Finite 0) e \<Longrightarrow>
     fle acc (foldl (fadd m) acc xs) \<and> (\<forall>e \<in> set xs. fle e (foldl (fadd m) acc xs))"
proof (induction xs arbitrary: acc)
  case Nil
  then show ?case by (cases acc) simp_all
next
  case (Cons x xs)
  from Cons.prems have x: "fle (Finite 0) x" and xs: "\<forall>e \<in> set xs. fle (Finite 0) e" by simp_all
  note a = fadd_nonneg [OF assms Cons.prems(1) x]
  from Cons.IH [OF a(1) xs]
  have ih: "fle (fadd m acc x) (foldl (fadd m) (fadd m acc x) xs)"
    "\<forall>e \<in> set xs. fle e (foldl (fadd m) (fadd m acc x) xs)" by simp_all
  show ?case using ih a(2,3) by (auto intro: fle_trans)
qed

subsection \<open>The maximum of a row\<close>

lemma fmax_NaN [simp]: "fmax NaN b = NaN" "fmax a NaN = NaN"
  by (simp_all add: fmax_def)

lemma foldl_fmax_NaN: "foldl fmax NaN xs = NaN"
  by (induction xs) simp_all

lemma foldl_fmax_has_NaN: "NaN \<in> set (x # xs) \<Longrightarrow> foldl fmax x xs = NaN"
  by (induction xs arbitrary: x) (auto simp: foldl_fmax_NaN)

lemma foldl_fmax_is_max:
  "NaN \<notin> set (x # xs) \<Longrightarrow>
     foldl fmax x xs \<in> set (x # xs) \<and> (\<forall>v \<in> set (x # xs). fle v (foldl fmax x xs))"
proof (induction xs arbitrary: x)
  case Nil
  then show ?case by (simp add: fle_refl)
next
  case (Cons y ys)
  from Cons.prems have nx: "x \<noteq> NaN" and ny: "y \<noteq> NaN" and nys: "NaN \<notin> set ys" by auto
  have m: "fmax x y = x \<or> fmax x y = y" by (simp add: fmax_def)
  have mx: "fle x (fmax x y)" "fle y (fmax x y)"
    using nx ny by (auto simp: fmax_def fle_refl fless_fle not_fless_fle)
  from m nx ny nys have "NaN \<notin> set (fmax x y # ys)" by auto
  from Cons.IH [OF this]
  have ih: "foldl fmax (fmax x y) ys \<in> set (fmax x y # ys)"
    "\<forall>v \<in> set (fmax x y # ys). fle v (foldl fmax (fmax x y) ys)" by simp_all
  from ih(1) m have 1: "foldl fmax x (y # ys) \<in> set (x # y # ys)" by auto
  from ih(2) have top: "fle (fmax x y) (foldl fmax (fmax x y) ys)" by simp
  have 2: "\<forall>v \<in> set (x # y # ys). fle v (foldl fmax x (y # ys))"
    using ih(2) mx top by (auto intro: fle_trans)
  from 1 2 show ?case by blast
qed

lemma max32_has_NaN: "NaN \<in> set xs \<Longrightarrow> max32 xs = NaN"
  by (cases xs) (simp_all only: max32.simps foldl_fmax_has_NaN, simp)

lemma max32_is_max:
  "xs \<noteq> [] \<Longrightarrow> NaN \<notin> set xs \<Longrightarrow> max32 xs \<in> set xs \<and> (\<forall>v \<in> set xs. fle v (max32 xs))"
  using foldl_fmax_is_max by (cases xs) (simp_all only: max32.simps, simp)

subsection \<open>The cross-entropy loss over float32\<close>

lemma log_softmax32_nth:
  "t < length xs \<Longrightarrow>
     log_softmax32 xs ! t
       = fsub float32_max (fsub float32_max (xs ! t) (max32 xs))
           (fln (sum32 (map (\<lambda>x. fexp float32_max (fsub float32_max x (max32 xs))) xs)))"
  by (simp add: log_softmax32_def Let_def)

lemma length_log_softmax32 [simp]: "length (log_softmax32 xs) = length xs"
  by (simp add: log_softmax32_def Let_def)

lemma sum32_has_NaN: "NaN \<in> set xs \<Longrightarrow> sum32 xs = NaN"
  by (simp add: sum32_def foldl_fadd_has_NaN)

lemma shifted_nonpos:
  assumes "fle x (Finite M)"
  shows "fle (fsub float32_max x (Finite M)) (Finite 0)"
  using assms float_max_pos(1) by (cases x) (simp_all add: fsub_def round_to_def)

lemma fexp_nonpos:
  assumes "fle d (Finite 0)"
  shows "fle (Finite 0) (fexp float32_max d)"
proof -
  have "\<not> exp x < - float32_max" for x :: real
    using exp_gt_zero [of x] float_max_pos(1) by linarith
  with assms show ?thesis by (cases d) (simp_all add: round_to_def)
qed

lemma fln_ge_one:
  assumes "fle (Finite 1) S"
  shows "fle (Finite 0) (fln S)"
  using assms by (cases S) simp_all

lemma log_softmax32_entry:
  assumes t: "t < length xs"
  shows "nonneg_or_nan (fneg (log_softmax32 xs ! t))"
proof -
  let ?mx = "max32 xs"
  let ?es = "map (\<lambda>x. fexp float32_max (fsub float32_max x ?mx)) xs"
  let ?lse = "fln (sum32 ?es)"
  have v: "log_softmax32 xs ! t = fsub float32_max (fsub float32_max (xs ! t) ?mx) ?lse"
    using t by (rule log_softmax32_nth)
  from t have ne: "xs \<noteq> []" by auto
  show ?thesis
  proof (cases "NaN \<in> set xs")
    case True
    then have "?mx = NaN" by (rule max32_has_NaN)
    then show ?thesis unfolding v by (simp add: nonneg_or_nan_def)
  next
    case False
    from max32_is_max [OF ne False]
    have mem: "?mx \<in> set xs" and top: "\<forall>v \<in> set xs. fle v ?mx" by simp_all
    from mem False have nn: "?mx \<noteq> NaN" by auto
    show ?thesis
    proof (cases ?mx)
      case (Finite M)
      have d: "fle (fsub float32_max x ?mx) (Finite 0)" if "x \<in> set xs" for x
      proof -
        from top that have "fle x (Finite M)" by (simp add: Finite [symmetric])
        then show ?thesis unfolding Finite by (rule shifted_nonpos)
      qed
      have es: "\<forall>e \<in> set ?es. fle (Finite 0) e"
        using d by (auto intro: fexp_nonpos)
      have "fexp float32_max (fsub float32_max ?mx ?mx) = Finite 1"
        using float_max_pos unfolding Finite by (simp add: fsub_def round_to_def)
      with mem have one: "Finite 1 \<in> set ?es" by force
      have "\<forall>e \<in> set ?es. fle e (sum32 ?es)"
        unfolding sum32_def using foldl_fadd_ge [OF float_max_pos(1) _ es, of "Finite 0"] by simp
      with one have "fle (Finite 1) (sum32 ?es)" by blast
      then have "fle (Finite 0) ?lse" by (rule fln_ge_one)
      then have "fle (fneg ?lse) (Finite 0)" by (rule fneg_nonneg)
      moreover have "fle (fsub float32_max (xs ! t) ?mx) (Finite 0)" using d t by simp
      ultimately have "fle (log_softmax32 xs ! t) (Finite 0)"
        unfolding v using fadd_nonpos [OF float_max_pos(1)] by (simp add: fsub_def [of _ _ ?lse])
      then show ?thesis by (simp add: nonneg_or_nan_def fneg_nonpos)
    next
      case PosInf
      have "fexp float32_max (fsub float32_max ?mx ?mx) = NaN"
        unfolding PosInf by (simp add: fsub_def)
      with mem have "NaN \<in> set ?es" by force
      then have "sum32 ?es = NaN" by (rule sum32_has_NaN)
      then show ?thesis unfolding v by (simp add: nonneg_or_nan_def)
    next
      case NegInf
      have "fexp float32_max (fsub float32_max ?mx ?mx) = NaN"
        unfolding NegInf by (simp add: fsub_def)
      with mem have "NaN \<in> set ?es" by force
      then have "sum32 ?es = NaN" by (rule sum32_has_NaN)
      then show ?thesis unfolding v by (simp add: nonneg_or_nan_def)
    next
      case NaN
      with nn show ?thesis by simp
    qed
  qed
qed

lemma nll_loss32_nonneg_or_nan:
  assumes "nll_loss32 (map log_softmax32 rs) y = Inr l"
  shows "nonneg_or_nan l"
proof -
  let ?z = "zip (map log_softmax32 rs) y"
  from assms have ok: "list_all (\<lambda>(lp, t). t < length lp) ?z"
    and l: "l = fdiv float32_max (sum32 (map (\<lambda>(lp, t). fneg (lp ! t)) ?z))
                  (round_to float32_max (real (length y)))"
    by (auto simp: nll_loss32_def split: if_splits)
  have "list_all nonneg_or_nan (map (\<lambda>(lp, t). fneg (lp ! t)) ?z)"
  proof -
    have "nonneg_or_nan (fneg (lp ! t))" if "(lp, t) \<in> set ?z" for lp t
    proof -
      from that obtain r where "lp = log_softmax32 r" by (auto simp: zip_map1)
      moreover from that ok have "t < length lp" by (auto simp: list_all_iff)
      ultimately show ?thesis using log_softmax32_entry [of t r] by simp
    qed
    then show ?thesis by (auto simp: list_all_iff)
  qed
  then have "nonneg_or_nan (sum32 (map (\<lambda>(lp, t). fneg (lp ! t)) ?z))"
    unfolding sum32_def
    by (intro foldl_fadd_nonneg_or_nan float_max_pos) (simp_all add: nonneg_or_nan_def)
  then show ?thesis
    unfolding l
    by (intro fdiv_nonneg_or_nan round_to_nonneg float_max_pos) simp_all
qed

lemma CrossEntropyLoss32_nonneg_or_nan:
  "CrossEntropyLoss32 pred y = Inr l \<Longrightarrow> nonneg_or_nan l"
  by (auto simp: CrossEntropyLoss32_def split: list.splits dest: nll_loss32_nonneg_or_nan)

subsection \<open>The evaluation loop over floating-point values\<close>

lemma collate32_labels: "collate32 b = Inr (X, y) \<Longrightarrow> y = map snd b"
  by (auto simp: collate32_def split: list.splits if_splits)

lemma call_model32_stdout: "call_model32 X s = Inr (pred, s1) \<Longrightarrow> stdout32 s1 = stdout32 s"
  by (auto simp: call_model32_def bind_err_Inr_iff)

lemma test_batches32_inv:
  assumes "test_batches32 CrossEntropyLoss32 bs (l0, Finite (real c0)) s = Inr ((l1, corr1), s1)"
    and "nonneg_or_nan l0"
    and "real (c0 + sum_list (map length bs)) \<le> float32_max"
  shows "nonneg_or_nan l1 \<and> (\<exists>c. corr1 = Finite (real c) \<and> c \<le> c0 + sum_list (map length bs))
         \<and> stdout32 s1 = stdout32 s"
  using assms
proof (induction bs arbitrary: l0 c0 s)
  case Nil
  then show ?case by auto
next
  case (Cons b bs)
  from Cons.prems(1) obtain X y pred s2 l am where
    c: "collate32 b = Inr (X, y)" and m: "call_model32 X s = Inr (pred, s2)"
    and l: "CrossEntropyLoss32 pred y = Inr l" and am: "argmax1_32 pred = Inr am"
    and rest: "test_batches32 CrossEntropyLoss32 bs
                 (fadd float64_max l0 l,
                  fadd float64_max (Finite (real c0)) (round_to float32_max (real (count_equal am y)))) s2
               = Inr ((l1, corr1), s1)"
    by (auto simp: bind_err_Inr_iff)
  let ?k = "count_equal am y"
  from c have "length y = length b" by (auto dest: collate32_labels)
  with count_equal_le [of am y] have k: "?k \<le> length b" by simp
  from Cons.prems(3) have bound: "real (c0 + length b + sum_list (map length bs)) \<le> float32_max"
    by (simp add: add.assoc)
  have "real ?k \<le> real (c0 + length b + sum_list (map length bs))" using k by simp
  with bound have "real ?k \<le> float32_max" by linarith
  then have rk: "round_to float32_max (real ?k) = Finite (real ?k)"
    by (intro round_to_in_range) simp_all
  have "real (c0 + ?k) \<le> real (c0 + length b + sum_list (map length bs))" using k by simp
  with bound float_max_pos(3) have "real (c0 + ?k) \<le> float64_max" by linarith
  then have "round_to float64_max (real c0 + real ?k) = Finite (real (c0 + ?k))"
    using round_to_in_range [of "real (c0 + ?k)" float64_max] by simp
  then have corr: "fadd float64_max (Finite (real c0)) (round_to float32_max (real ?k))
      = Finite (real (c0 + ?k))"
    unfolding rk by simp
  have nl: "nonneg_or_nan (fadd float64_max l0 l)"
    using Cons.prems(2) l float_max_pos(2)
    by (intro fadd_nonneg_or_nan) (auto dest: CrossEntropyLoss32_nonneg_or_nan)
  have b2: "real (c0 + ?k + sum_list (map length bs)) \<le> float32_max"
  proof -
    have "real (c0 + ?k + sum_list (map length bs)) \<le> real (c0 + length b + sum_list (map length bs))"
      using k by simp
    with bound show ?thesis by linarith
  qed
  from Cons.IH [OF rest [unfolded corr] nl b2]
  have "nonneg_or_nan l1" "\<exists>c. corr1 = Finite (real c) \<and> c \<le> c0 + ?k + sum_list (map length bs)"
    "stdout32 s1 = stdout32 s2" by simp_all
  moreover have "stdout32 s2 = stdout32 s" using m by (rule call_model32_stdout)
  ultimately show ?case using k by auto
qed

text \<open>
  C6 (amended). Whenever the evaluation loop reports, with the cross-entropy loss, the
  reported accuracy lies between 0 and 1, and the reported average loss is at least 0
  (it may be \<open>inf\<close>) or is NaN, for every model and every dataset whose length is in
  the range of float32.
\<close>

theorem test_loop32_ranges:
  assumes "test_loop32 dataloader CrossEntropyLoss32 s = Inr s'"
    and "real (length (dataset32 dataloader)) \<le> float32_max"
  shows "\<exists>accuracy avg_loss. stdout32 s' = stdout32 s @ [TestError32 accuracy avg_loss] \<and>
           fle (Finite 0) accuracy \<and> fle accuracy (Finite 1) \<and>
           (fle (Finite 0) avg_loss \<or> avg_loss = NaN)"
proof -
  let ?bs = "chunks (batch_size32 dataloader) (dataset32 dataloader)"
  let ?n = "length (dataset32 dataloader)"
  from assms(1) obtain l1 corr1 s1 where
    run: "test_batches32 CrossEntropyLoss32 ?bs (Finite 0, Finite 0) (s\<lparr>grad_enabled32 := False\<rparr>)
            = Inr ((l1, corr1), s1)"
    and n: "?n \<noteq> 0"
    and s': "s' = s1\<lparr>grad_enabled32 := grad_enabled32 s,
                   stdout32 := stdout32 s1 @
                     [TestError32 (fdiv float64_max corr1 (round_to float64_max (real ?n)))
                                  (fdiv float64_max l1 (round_to float64_max (real ?n)))]\<rparr>"
    by (auto simp: test_loop32_def no_grad32_def Let_def bind_err_Inr_iff split: if_splits)
  have le: "sum_list (map length ?bs) \<le> ?n" by (rule sum_length_chunks_le)
  then have "real (0 + sum_list (map length ?bs)) \<le> real ?n" by simp
  with assms(2) have b: "real (0 + sum_list (map length ?bs)) \<le> float32_max" by linarith
  have z: "nonneg_or_nan (Finite 0)" by (simp add: nonneg_or_nan_def)
  from run have run': "test_batches32 CrossEntropyLoss32 ?bs (Finite 0, Finite (real 0))
      (s\<lparr>grad_enabled32 := False\<rparr>) = Inr ((l1, corr1), s1)" by simp
  from test_batches32_inv [OF run' z b] obtain c where
    l1: "nonneg_or_nan l1" and c: "corr1 = Finite (real c)" "c \<le> sum_list (map length ?bs)"
    and out: "stdout32 s1 = stdout32 s" by auto
  from assms(2) float_max_pos(3) have "real ?n \<le> float64_max" by linarith
  then have rn: "round_to float64_max (real ?n) = Finite (real ?n)"
    by (intro round_to_in_range) simp_all
  from n have pos: "0 < real ?n" by simp
  from c(2) le have cn: "real c \<le> real ?n" by simp
  have q: "0 \<le> real c / real ?n" "real c / real ?n \<le> 1" using cn pos by simp_all
  with float_max_pos(5) have "real c / real ?n \<le> float64_max" by linarith
  with q(1) have "round_to float64_max (real c / real ?n) = Finite (real c / real ?n)"
    by (intro round_to_in_range)
  then have acc: "fdiv float64_max corr1 (round_to float64_max (real ?n)) = Finite (real c / real ?n)"
    unfolding rn c(1) using n by simp
  have "nonneg_or_nan (fdiv float64_max l1 (round_to float64_max (real ?n)))"
    unfolding rn using l1 float_max_pos(2) by (intro fdiv_nonneg_or_nan) simp_all
  then have avg: "fle (Finite 0) (fdiv float64_max l1 (round_to float64_max (real ?n)))
      \<or> fdiv float64_max l1 (round_to float64_max (real ?n)) = NaN"
    by (simp add: nonneg_or_nan_def)
  have "stdout32 s' = stdout32 s @
      [TestError32 (Finite (real c / real ?n)) (fdiv float64_max l1 (round_to float64_max (real ?n)))]"
    unfolding s' acc [symmetric] using out by simp
  moreover have "fle (Finite 0) (Finite (real c / real ?n))" "fle (Finite (real c / real ?n)) (Finite 1)"
    using q by simp_all
  ultimately show ?thesis using avg by blast
qed

lemma chunks_one: "0 < n \<Longrightarrow> chunks n [x] = [[x]]"
  by (subst chunks.simps) simp

lemma log_softmax32_NaN: "log_softmax32 (replicate n NaN) = replicate n NaN"
  by (simp add: log_softmax32_def Let_def map_replicate_const)

lemma argmax32_NaN: "argmax32 (NaN # xs) = 0"
  by (cases xs) simp_all

lemma argmax32_replicate_NaN: "argmax32 (replicate n NaN) = 0"
  by (cases n) (simp_all add: argmax32_NaN)

lemma rows_one: "rows 1 k (replicate k c) = [replicate k c]"
  using rows_replicate [of 1 k c] by simp

lemma overflow_loss: "CrossEntropyLoss32 (full32 [1, 10] NaN) [t] = (if t < 10 then Inr NaN else Inl IndexError)"
  by (simp add: CrossEntropyLoss32_def full32_def rows_one log_softmax32_NaN nll_loss32_def sum32_def)

lemma overflow_argmax: "argmax1_32 (full32 [1, 10] NaN) = Inr [0]"
  by (simp add: argmax1_32_def full32_def rows_one argmax32_replicate_NaN)

lemma collate32_one:
  "collate32 [(full32 sh c, t)] = Inr (full32 (1 # sh) c, [t])"
  by (simp add: collate32_def full32_def)

lemma overflow_test_loop:
  "test_loop32 \<lparr>dataset32 = [(full32 [1, 28, 28] (Finite 4), 0)], batch_size32 = 64\<rparr> CrossEntropyLoss32
      (init_state32 (\<lambda>k i. if k = 0 then Finite (2 ^ 127) else Finite 0) (\<lambda>i. 0))
     = Inr ((init_state32 (\<lambda>k i. if k = 0 then Finite (2 ^ 127) else Finite 0) (\<lambda>i. 0))
              \<lparr>stdout32 := [TestError32 (Finite 1) NaN]\<rparr>)"
proof -
  let ?M = "NeuralNetwork32 (\<lambda>k i. if k = 0 then Finite (2 ^ 127) else Finite 0)"
  let ?s = "init_state32 (\<lambda>k i. if k = 0 then Finite (2 ^ 127) else Finite 0) (\<lambda>i. 0)"
  have ch: "chunks 64 [(full32 [1, 28, 28] (Finite 4), 0)] = [[(full32 [1, 28, 28] (Finite 4), 0::nat)]]"
    by (rule chunks_one) simp
  have fw: "forward32 ?M (\<lambda>i. 0) (full32 [1, 1, 28, 28] (Finite 4)) = Inr (full32 [1, 10] NaN, \<lambda>i. 0)"
    by (rule overflow_forward) simp
  have cm: "call_model32 (full32 [1, 1, 28, 28] (Finite 4)) (?s\<lparr>grad_enabled32 := False\<rparr>)
      = Inr (full32 [1, 10] NaN, ?s\<lparr>grad_enabled32 := False\<rparr>)"
  proof -
    have "model32 (?s\<lparr>grad_enabled32 := False\<rparr>) = ?M"
      "generator32 (?s\<lparr>grad_enabled32 := False\<rparr>) = (\<lambda>i. 0)"
      "grad_enabled32 (?s\<lparr>grad_enabled32 := False\<rparr>) = False"
      by (simp_all add: init_state32_def)
    then show ?thesis
      unfolding call_model32_def by (simp only: fw bind_err_simps prod.case) (simp add: init_state32_def)
  qed
  have ce: "count_equal [0] [0] = 1" by (simp add: count_equal_def)
  have tb: "test_batches32 CrossEntropyLoss32 [[(full32 [1, 28, 28] (Finite 4), 0)]] (Finite 0, Finite 0)
        (?s\<lparr>grad_enabled32 := False\<rparr>)
      = Inr ((NaN, Finite 1), ?s\<lparr>grad_enabled32 := False\<rparr>)"
    unfolding test_batches32.simps collate32_one bind_err_simps prod.case cm overflow_loss
      overflow_argmax ce
    using float_max_pos by (simp add: round_to_def)
  show ?thesis
    unfolding test_loop32_def no_grad32_def Let_def dataloader32.simps ch tb
    using float_max_pos by (simp add: init_state32_def round_to_def)
qed

text \<open>
  C6 (the claim as the spec has it, refuted). On one image of finite float32 pixels and
  a model of finite float32 parameters the evaluation loop reports the average loss NaN,
  which is not at least 0.
\<close>

theorem test_loop32_reports_nan:
  "test_loop32 \<lparr>dataset32 = [(full32 [1, 28, 28] (Finite 4), 0)], batch_size32 = 64\<rparr> CrossEntropyLoss32
      (init_state32 (\<lambda>k i. if k = 0 then Finite (2 ^ 127) else Finite 0) (\<lambda>i. 0))
     = Inr ((init_state32 (\<lambda>k i. if k = 0 then Finite (2 ^ 127) else Finite 0) (\<lambda>i. 0))
              \<lparr>stdout32 := [TestError32 (Finite 1) NaN]\<rparr>)
   \<and> \<not> fle (Finite 0) NaN
   \<and> 2 ^ 127 \<le> float32_max \<and> 4 \<le> float32_max"
  using overflow_test_loop by (simp add: float32_max_def)

subsection \<open>An example without overflow\<close>

text \<open>
  An example without overflow: all parameters 0, one image of pixels 1 with label 0. All
  scores are 0, the loss is \<open>ln 10\<close>.
\<close>

lemma foldl_fadd_replicate:
  "0 \<le> a \<Longrightarrow> 0 \<le> c \<Longrightarrow> a + real n * c \<le> m \<Longrightarrow>
     foldl (fadd m) (Finite a) (replicate n (Finite c)) = Finite (a + real n * c)"
proof (induction n arbitrary: a)
  case 0
  then show ?case by simp
next
  case (Suc n)
  have le: "a + c \<le> a + real (Suc n) * c"
    using Suc.prems(2) by (simp add: algebra_simps mult_nonneg_nonneg)
  with Suc.prems have r: "round_to m (a + c) = Finite (a + c)"
    by (intro round_to_in_range) simp_all
  have "foldl (fadd m) (Finite (a + c)) (replicate n (Finite c)) = Finite (a + c + real n * c)"
    using Suc.prems by (intro Suc.IH) (simp_all add: algebra_simps)
  then show ?case by (simp add: r algebra_simps)
qed

lemma sum32_replicate:
  "0 \<le> c \<Longrightarrow> real n * c \<le> float32_max \<Longrightarrow> sum32 (replicate n (Finite c)) = Finite (real n * c)"
  unfolding sum32_def using foldl_fadd_replicate [of 0 c n float32_max] by simp

lemma max32_replicate: "x \<noteq> NaN \<Longrightarrow> 0 < n \<Longrightarrow> max32 (replicate n x) = x"
proof -
  assume x: "x \<noteq> NaN"
  have xx: "fmax x x = x" using x by (cases x) (simp_all add: fmax_def)
  have "foldl fmax x (replicate k x) = x" for k
    by (induction k) (simp_all add: xx)
  then show "0 < n \<Longrightarrow> max32 (replicate n x) = x" by (cases n) simp_all
qed

lemma argmax32_replicate: "argmax32 (replicate n (Finite c)) = 0"
proof (induction n)
  case 0
  show ?case by simp
next
  case (Suc n)
  then show ?case by (cases n) (simp_all add: Let_def)
qed

lemma zero_stack:
  "linear_relu_stack32 (NeuralNetwork32 (\<lambda>k i. Finite 0)) =
     [Linear32 (full32 [512, 784] (Finite 0)) (full32 [512] (Finite 0)),
      ReLU32,
      Linear32 (full32 [512, 512] (Finite 0)) (full32 [512] (Finite 0)),
      ReLU32,
      Linear32 (full32 [10, 512] (Finite 0)) (full32 [10] (Finite 0)),
      ReLU32]"
proof -
  have "Linear32_init (28 * 28) 512 (\<lambda>i. Finite 0) (\<lambda>i. Finite 0)
      = Linear32 (full32 [512, 784] (Finite 0)) (full32 [512] (Finite 0))"
    using Linear32_init_const [of "28 * 28" 512 "Finite 0" "Finite 0"] by simp
  then show ?thesis by (simp add: NeuralNetwork32_def Linear32_init_const)
qed

lemma zero_layer:
  "nn_Linear32 (full32 [out, inn] (Finite 0)) (full32 [out] (Finite 0)) (full32 [B, inn] (Finite c))
     = Inr (full32 [B, out] (Finite 0))"
proof -
  have "fmul float32_max (Finite c) (Finite 0) = Finite 0"
    using float_max_pos(1) by (simp add: round_to_def)
  moreover have "sum32 (replicate inn (Finite 0)) = Finite 0"
    using sum32_replicate [of 0 inn] float_max_pos(1) by simp
  moreover have "fadd float32_max (Finite 0) (Finite 0) = Finite 0"
    using float_max_pos(1) by (simp add: round_to_def)
  ultimately show ?thesis unfolding nn_Linear32_full by simp
qed

lemma zero_forward:
  assumes "prod_list (d1 # ds) = 784"
  shows "forward32 (NeuralNetwork32 (\<lambda>k i. Finite 0)) gen (full32 (B # d1 # ds) (Finite 1))
     = Inr (full32 [B, 10] (Finite 0), gen)"
proof -
  have fl: "nn_Flatten32 (full32 (B # d1 # ds) (Finite 1)) = Inr (full32 [B, 784] (Finite 1))"
    unfolding nn_Flatten32_full assms by simp
  have r: "relu32 (Finite 0) = Finite 0" by simp
  show ?thesis
    unfolding forward32_def zero_stack fl
    by (simp only: bind_err_simps Sequential32.simps apply_stage32.simps zero_layer
          nn_ReLU32_full r prod.case)
qed

lemma round_to_abs: "\<bar>x\<bar> \<le> m \<Longrightarrow> round_to m x = Finite x"
  by (auto simp: round_to_def)

lemma round_to_ln10:
  "round_to float32_max (ln 10) = Finite (ln 10)"
  "round_to float32_max (- ln 10) = Finite (- ln 10)"
  "round_to float64_max (ln 10) = Finite (ln 10)"
proof -
  have p: "0 \<le> ln (10::real)" by simp
  have "ln (10::real) \<le> 10 - 1" by (rule ln_le_minus_one) simp
  moreover have "(9::real) \<le> float32_max" by (simp add: float32_max_def)
  ultimately have a: "ln (10::real) \<le> float32_max" by linarith
  with float_max_pos(3) have b: "ln (10::real) \<le> float64_max" by linarith
  from p a have "\<bar>ln (10::real)\<bar> \<le> float32_max" "\<bar>- ln (10::real)\<bar> \<le> float32_max"
    by (simp_all only: abs_of_nonneg abs_minus_cancel)
  then show "round_to float32_max (ln 10) = Finite (ln 10)"
    "round_to float32_max (- ln 10) = Finite (- ln 10)"
    by (simp_all only: round_to_abs)
  from p b have "\<bar>ln (10::real)\<bar> \<le> float64_max" by (simp only: abs_of_nonneg)
  then show "round_to float64_max (ln 10) = Finite (ln 10)" by (rule round_to_abs)
qed

lemma zero_log_softmax: "log_softmax32 (replicate 10 (Finite 0)) = replicate 10 (Finite (- ln 10))"
proof -
  have mx: "max32 (replicate 10 (Finite 0)) = Finite 0" by (rule max32_replicate) simp_all
  have d: "fsub float32_max (Finite 0) (Finite 0) = Finite 0"
    using float_max_pos(1) by (simp add: fsub_def round_to_def)
  have e: "fexp float32_max (Finite 0) = Finite 1"
    using float_max_pos(4) by (simp add: round_to_def)
  have "(10::real) \<le> float32_max" by (simp add: float32_max_def)
  then have s: "sum32 (replicate 10 (Finite 1)) = Finite 10"
    using sum32_replicate [of 1 10] by simp
  have l: "fsub float32_max (Finite 0) (Finite (ln 10)) = Finite (- ln 10)"
    by (simp add: fsub_def round_to_ln10)
  show ?thesis
    unfolding log_softmax32_def Let_def mx map_replicate d e s by (simp add: l)
qed

lemma zero_loss: "CrossEntropyLoss32 (full32 [1, 10] (Finite 0)) [0] = Inr (Finite (ln 10))"
proof -
  have n: "nll_loss32 [replicate 10 (Finite (- ln 10))] [0] = Inr (Finite (ln 10))"
  proof -
    have "round_to float32_max 1 = Finite 1" using float_max_pos(4) by (simp add: round_to_def)
    then show ?thesis by (simp add: nll_loss32_def sum32_def round_to_ln10)
  qed
  show ?thesis
    by (simp add: CrossEntropyLoss32_def full32_def rows_one zero_log_softmax n)
qed

lemma zero_argmax: "argmax1_32 (full32 [1, 10] (Finite 0)) = Inr [0]"
  by (simp add: argmax1_32_def full32_def rows_one argmax32_replicate)

lemma zero_test_loop:
  "test_loop32 \<lparr>dataset32 = [(full32 [1, 28, 28] (Finite 1), 0)], batch_size32 = 64\<rparr> CrossEntropyLoss32
      (init_state32 (\<lambda>k i. Finite 0) (\<lambda>i. 0))
     = Inr ((init_state32 (\<lambda>k i. Finite 0) (\<lambda>i. 0))
              \<lparr>stdout32 := [TestError32 (Finite 1) (Finite (ln 10))]\<rparr>)"
proof -
  let ?M = "NeuralNetwork32 (\<lambda>k i. Finite 0)"
  let ?s = "init_state32 (\<lambda>k i. Finite 0) (\<lambda>i. 0)"
  have ch: "chunks 64 [(full32 [1, 28, 28] (Finite 1), 0)] = [[(full32 [1, 28, 28] (Finite 1), 0::nat)]]"
    by (rule chunks_one) simp
  have fw: "forward32 ?M (\<lambda>i. 0) (full32 [1, 1, 28, 28] (Finite 1)) = Inr (full32 [1, 10] (Finite 0), \<lambda>i. 0)"
    by (rule zero_forward) simp
  have cm: "call_model32 (full32 [1, 1, 28, 28] (Finite 1)) (?s\<lparr>grad_enabled32 := False\<rparr>)
      = Inr (full32 [1, 10] (Finite 0), ?s\<lparr>grad_enabled32 := False\<rparr>)"
  proof -
    have "model32 (?s\<lparr>grad_enabled32 := False\<rparr>) = ?M"
      "generator32 (?s\<lparr>grad_enabled32 := False\<rparr>) = (\<lambda>i. 0)"
      "grad_enabled32 (?s\<lparr>grad_enabled32 := False\<rparr>) = False"
      by (simp_all add: init_state32_def)
    then show ?thesis
      unfolding call_model32_def by (simp only: fw bind_err_simps prod.case) (simp add: init_state32_def)
  qed
  have ce: "count_equal [0] [0] = 1" by (simp add: count_equal_def)
  have one: "round_to float32_max 1 = Finite 1" "round_to float64_max 1 = Finite 1"
    using float_max_pos(4,5) by (simp_all add: round_to_def)
  have tb: "test_batches32 CrossEntropyLoss32 [[(full32 [1, 28, 28] (Finite 1), 0)]] (Finite 0, Finite 0)
        (?s\<lparr>grad_enabled32 := False\<rparr>)
      = Inr ((Finite (ln 10), Finite 1), ?s\<lparr>grad_enabled32 := False\<rparr>)"
    unfolding test_batches32.simps collate32_one bind_err_simps prod.case cm zero_loss
      zero_argmax ce
    using one by (simp add: round_to_ln10)
  show ?thesis
    unfolding test_loop32_def no_grad32_def Let_def dataloader32.simps ch tb
    using one by (simp add: init_state32_def round_to_ln10)
qed

subsection \<open>The theorems at the examples\<close>

theorem test_loop32_ranges_witness:
  "(\<exists>s' accuracy avg_loss.
      test_loop32 \<lparr>dataset32 = [(full32 [1, 28, 28] (Finite 1), 0)], batch_size32 = 64\<rparr> CrossEntropyLoss32
        (init_state32 (\<lambda>k i. Finite 0) (\<lambda>i. 0)) = Inr s' \<and>
      stdout32 s' = [TestError32 accuracy avg_loss] \<and> accuracy = Finite 1 \<and> avg_loss = Finite (ln 10) \<and>
      fle (Finite 0) accuracy \<and> fle accuracy (Finite 1) \<and> (fle (Finite 0) avg_loss \<or> avg_loss = NaN))
   \<and> (\<exists>s' accuracy avg_loss.
      test_loop32 \<lparr>dataset32 = [(full32 [1, 28, 28] (Finite 4), 0)], batch_size32 = 64\<rparr> CrossEntropyLoss32
        (init_state32 (\<lambda>k i. if k = 0 then Finite (2 ^ 127) else Finite 0) (\<lambda>i. 0)) = Inr s' \<and>
      stdout32 s' = [TestError32 accuracy avg_loss] \<and> avg_loss = NaN \<and>
      fle (Finite 0) accuracy \<and> fle accuracy (Finite 1) \<and> (fle (Finite 0) avg_loss \<or> avg_loss = NaN))"
proof -
  let ?dz = "\<lparr>dataset32 = [(full32 [1, 28, 28] (Finite 1), 0)], batch_size32 = 64\<rparr>"
  let ?sz = "init_state32 (\<lambda>k i. Finite 0) (\<lambda>i. 0)"
  let ?dl = "\<lparr>dataset32 = [(full32 [1, 28, 28] (Finite 4), 0)], batch_size32 = 64\<rparr>"
  let ?s = "init_state32 (\<lambda>k i. if k = 0 then Finite (2 ^ 127) else Finite 0) (\<lambda>i. 0)"
  have nz: "real (length (dataset32 ?dz)) \<le> float32_max" using float_max_pos(4) by simp
  have n: "real (length (dataset32 ?dl)) \<le> float32_max" using float_max_pos(4) by simp
  have ez: "stdout32 ?sz = []" and e: "stdout32 ?s = []" by (simp_all add: init_state32_def)
  from test_loop32_ranges [OF zero_test_loop nz]
  have 1: "\<exists>accuracy avg_loss.
      stdout32 (?sz\<lparr>stdout32 := [TestError32 (Finite 1) (Finite (ln 10))]\<rparr>) = [TestError32 accuracy avg_loss] \<and>
      fle (Finite 0) accuracy \<and> fle accuracy (Finite 1) \<and> (fle (Finite 0) avg_loss \<or> avg_loss = NaN)"
    unfolding ez by simp
  from test_loop32_ranges [OF overflow_test_loop n]
  have 2: "\<exists>accuracy avg_loss.
      stdout32 (?s\<lparr>stdout32 := [TestError32 (Finite 1) NaN]\<rparr>) = [TestError32 accuracy avg_loss] \<and>
      fle (Finite 0) accuracy \<and> fle accuracy (Finite 1) \<and> (fle (Finite 0) avg_loss \<or> avg_loss = NaN)"
    unfolding e by simp
  from 1 have "\<exists>s' accuracy avg_loss. test_loop32 ?dz CrossEntropyLoss32 ?sz = Inr s' \<and>
      stdout32 s' = [TestError32 accuracy avg_loss] \<and> accuracy = Finite 1 \<and> avg_loss = Finite (ln 10) \<and>
      fle (Finite 0) accuracy \<and> fle accuracy (Finite 1) \<and> (fle (Finite 0) avg_loss \<or> avg_loss = NaN)"
    unfolding zero_test_loop by auto
  moreover from 2 have "\<exists>s' accuracy avg_loss. test_loop32 ?dl CrossEntropyLoss32 ?s = Inr s' \<and>
      stdout32 s' = [TestError32 accuracy avg_loss] \<and> avg_loss = NaN \<and>
      fle (Finite 0) accuracy \<and> fle accuracy (Finite 1) \<and> (fle (Finite 0) avg_loss \<or> avg_loss = NaN)"
    unfolding overflow_test_loop by auto
  ultimately show ?thesis by blast
qed

theorem forward32_deterministic_witness:
  "forward32 (NeuralNetwork32 (\<lambda>k i. Finite 0)) (\<lambda>i. 0) (full32 [1, 28, 28] (Finite 1))
     = Inr (full32 [1, 10] (Finite 0), \<lambda>i. 0) \<and>
   forward32 ((NeuralNetwork32 (\<lambda>k i. Finite 0))\<lparr>training32 := False\<rparr>) (\<lambda>i. 1) (full32 [1, 28, 28] (Finite 1))
     = Inr (full32 [1, 10] (Finite 0), \<lambda>i. 1) \<and>
   forward32 (eval32 (NeuralNetwork32 (\<lambda>k i. Finite 0))) (\<lambda>i. 1) (full32 [1, 28, 28] (Finite 1))
     = Inr (full32 [1, 10] (Finite 0), \<lambda>i. 1)"
proof -
  let ?M = "NeuralNetwork32 (\<lambda>k i. Finite 0)"
  let ?X = "full32 [1, 28, 28] (Finite 1)"
  have p: "list_all plain (linear_relu_stack32 ?M)" by (rule NeuralNetwork32_plain)
  have e: "linear_relu_stack32 (?M\<lparr>training32 := False\<rparr>) = linear_relu_stack32 ?M" by simp
  from p e forward32_deterministic [of "\<lambda>k i. Finite 0" ?M "?M\<lparr>training32 := False\<rparr>" "\<lambda>i. 0" ?X "\<lambda>i. 1"]
  obtain r where r: "forward32 ?M (\<lambda>i. 0) ?X = bind_err r (\<lambda>y. Inr (y, \<lambda>i. 0))"
      "forward32 (?M\<lparr>training32 := False\<rparr>) (\<lambda>i. 1) ?X = bind_err r (\<lambda>y. Inr (y, \<lambda>i. 1))"
      "forward32 (eval32 ?M) (\<lambda>i. 1) ?X = bind_err r (\<lambda>y. Inr (y, \<lambda>i. 1))"
    by blast
  have f: "forward32 ?M (\<lambda>i. 0) ?X = Inr (full32 [1, 10] (Finite 0), \<lambda>i. 0)"
    by (rule zero_forward) simp
  from r(1) f have "r = Inr (full32 [1, 10] (Finite 0))" by (cases r) simp_all
  with r f show ?thesis by simp
qed

end
